theory Spec2Isabelle
  imports Main "HOL-Library.AList"
begin

section \<open>Python values used by \<^verbatim>\<open>cas/utils/conversion_utils.py\<close>\<close>

text \<open>
  Exceptions are values. \<open>ValueError\<close> carries its message, \<open>KeyError\<close> the key that
  was missing. Strings are \<open>char list\<close>; the model reads them as ASCII text.
\<close>

datatype py_error = ValueError string | TypeError | KeyError string | IndexError

section \<open>Rank assignment\<close>

text \<open>
  \<^verbatim>\<open>
  def calculate_labelset_rank(input_list):
      list_length = len(input_list)
      return {item: list_length - 1 - rank for rank, item in enumerate(input_list)}
  \<close>
  The dict comprehension stores the pairs of \<open>enumerate\<close> one after the other, so a
  name that occurs twice keeps the value stored last.
\<close>

definition put_rank :: "int \<Rightarrow> nat \<times> string \<Rightarrow> (string \<rightharpoonup> int) \<Rightarrow> (string \<rightharpoonup> int)" where
  "put_rank list_length p d = (case p of (rank, item) \<Rightarrow> d(item \<mapsto> list_length - 1 - int rank))"

definition calculate_labelset_rank :: "string list \<Rightarrow> (string \<rightharpoonup> int)" where
  "calculate_labelset_rank input_list =
     (let list_length = int (length input_list)
      in fold (put_rank list_length) (enumerate 0 input_list) Map.empty)"

section \<open>Strings and integers of Python\<close>

text \<open>
  \<open>str_le\<close> is \<^verbatim>\<open><=\<close> on two \<^verbatim>\<open>str\<close> values: the first position where they
  differ decides, by character code, and a proper prefix is smaller.
\<close>

fun str_le :: "string \<Rightarrow> string \<Rightarrow> bool" where
  "str_le [] t = True"
| "str_le (c # cs) [] = False"
| "str_le (c # cs) (d # ds) =
     (if (of_char c :: nat) < of_char d then True
      else if c = d then str_le cs ds
      else False)"

definition lower_char :: "char \<Rightarrow> char" where
  "lower_char c =
     (let n = (of_char c :: nat) in if 65 \<le> n \<and> n \<le> 90 then char_of (n + 32) else c)"

text \<open>\<^verbatim>\<open>str.lower()\<close>, on ASCII text.\<close>

definition lower :: "string \<Rightarrow> string" where
  "lower s = map lower_char s"

definition digit_char :: "nat \<Rightarrow> char" where
  "digit_char d = char_of (48 + d)"

fun str_nat :: "nat \<Rightarrow> string" where
  "str_nat n = (if n < 10 then [digit_char n] else str_nat (n div 10) @ [digit_char (n mod 10)])"

declare str_nat.simps [simp del]

text \<open>\<^verbatim>\<open>str(i)\<close> of a Python \<^verbatim>\<open>int\<close>: its decimal digits, after a minus sign when negative.\<close>

definition py_str :: "int \<Rightarrow> string" where
  "py_str i = (if i < 0 then CHR ''-'' # str_nat (nat (- i)) else str_nat (nat i))"

definition is_space :: "char \<Rightarrow> bool" where
  "is_space c = (let n = (of_char c :: nat) in (9 \<le> n \<and> n \<le> 13) \<or> (28 \<le> n \<and> n \<le> 32))"

definition strip :: "string \<Rightarrow> string" where
  "strip s = rev (dropWhile is_space (rev (dropWhile is_space s)))"

definition digit_val :: "char \<Rightarrow> nat option" where
  "digit_val c = (let n = (of_char c :: nat) in if 48 \<le> n \<and> n \<le> 57 then Some (n - 48) else None)"

text \<open>
  The digits after the first one; a single underscore may stand between two digits.
\<close>

fun digits_value :: "nat \<Rightarrow> string \<Rightarrow> nat option" where
  "digits_value acc [] = Some acc"
| "digits_value acc (c # cs) =
     (if c = CHR ''_'' then
        (case cs of
           [] \<Rightarrow> None
         | d # ds \<Rightarrow>
             (case digit_val d of None \<Rightarrow> None | Some v \<Rightarrow> digits_value (10 * acc + v) ds))
      else
        (case digit_val c of None \<Rightarrow> None | Some v \<Rightarrow> digits_value (10 * acc + v) cs))"

definition unsigned_value :: "string \<Rightarrow> nat option" where
  "unsigned_value s =
     (case s of
        [] \<Rightarrow> None
      | c # cs \<Rightarrow> (case digit_val c of None \<Rightarrow> None | Some v \<Rightarrow> digits_value v cs))"

text \<open>
  The message of \<^verbatim>\<open>int\<close> ends with \<^verbatim>\<open>repr(s)\<close>, here \<open>s\<close> between single quotes.
\<close>

definition invalid_literal :: "string \<Rightarrow> py_error" where
  "invalid_literal s =
     ValueError (''invalid literal for int() with base 10: '' @ [CHR 0x27] @ s @ [CHR 0x27])"

text \<open>
  \<^verbatim>\<open>int(s)\<close> of a \<^verbatim>\<open>str\<close>: surrounding white space is dropped, one sign is allowed,
  then decimal digits. Anything else raises \<^verbatim>\<open>ValueError\<close>.
\<close>

definition py_int :: "string \<Rightarrow> py_error + int" where
  "py_int s =
     (case strip s of
        [] \<Rightarrow> Inl (invalid_literal s)
      | c # cs \<Rightarrow>
          (if c = CHR ''-'' then
             (case unsigned_value cs of
                None \<Rightarrow> Inl (invalid_literal s) | Some n \<Rightarrow> Inr (- int n))
           else if c = CHR ''+'' then
             (case unsigned_value cs of
                None \<Rightarrow> Inl (invalid_literal s) | Some n \<Rightarrow> Inr (int n))
           else
             (case unsigned_value (c # cs) of
                None \<Rightarrow> Inl (invalid_literal s) | Some n \<Rightarrow> Inr (int n))))"

section \<open>The lookup of cell sets\<close>

text \<open>
  One value of \<^verbatim>\<open>parent_cell_look_up\<close>. The first five keys are written by
  \<^verbatim>\<open>generate_parent_cell_lookup\<close>; \<^verbatim>\<open>parent\<close>, \<^verbatim>\<open>p_accession\<close> and
  \<^verbatim>\<open>parent_rank\<close> are absent (\<open>None\<close>) until \<^verbatim>\<open>update_parent_info\<close> stores them.
  The rank is the \<^verbatim>\<open>str\<close> that \<^verbatim>\<open>calculate_labelset\<close> makes of the integer rank.
\<close>

record entry =
  cell_ids :: "string set"
  accession :: string
  rank :: string
  cell_ontology_term_id :: string
  cell_ontology_term :: string
  parent :: "string option"
  p_accession :: "string option"
  parent_rank :: "string option"

text \<open>
  The dict itself, in insertion order. A Python dict has no key twice:
  \<open>distinct (map fst lookup)\<close>.
\<close>

type_synonym lookup = "(string \<times> entry) list"

section \<open>Building the hierarchy\<close>

text \<open>
  \<^verbatim>\<open>
  def update_parent_info(value, parent_key, parent_value):
      value.update({"parent": parent_key,
                    "p_accession": parent_value.get("accession"),
                    "parent_rank": parent_value.get("rank")})
  \<close>
\<close>

definition update_parent_info :: "entry \<Rightarrow> string \<Rightarrow> entry \<Rightarrow> entry" where
  "update_parent_info value parent_key parent_value =
     value\<lparr>parent := Some parent_key,
           p_accession := Some (accession parent_value),
           parent_rank := Some (rank parent_value)\<rparr>"

text \<open>
  The guard of the loop body:
  \<^verbatim>\<open>
  key == inner_key or value.get("parent")
      and value.get("parent_rank", 0) <= inner_value.get("rank")
  \<close>
  \<^verbatim>\<open>value.get("parent")\<close> counts as true when the key is present and the label is
  not the empty string. Both ranks are \<^verbatim>\<open>str\<close>, so \<^verbatim>\<open><=\<close> compares them as strings;
  with \<^verbatim>\<open>parent_rank\<close> absent the default \<^verbatim>\<open>0\<close> meets a \<^verbatim>\<open>str\<close> and \<^verbatim>\<open><=\<close>
  raises \<^verbatim>\<open>TypeError\<close>.
\<close>

definition skip_pair :: "string \<Rightarrow> entry \<Rightarrow> string \<Rightarrow> entry \<Rightarrow> py_error + bool" where
  "skip_pair key value inner_key inner_value =
     (if key = inner_key then Inr True
      else
        (case parent value of
           None \<Rightarrow> Inr False
         | Some p \<Rightarrow>
             if p = [] then Inr False
             else
               (case parent_rank value of
                  None \<Rightarrow> Inl TypeError
                | Some pr \<Rightarrow> Inr (str_le pr (rank inner_value)))))"

definition same_cell_ids_message :: "string \<Rightarrow> string \<Rightarrow> string" where
  "same_cell_ids_message key inner_key =
     key @ '' and '' @ inner_key
       @ '' cell labels have the same cell_ids. Cell_ids can't be identical at the same rank.''"

text \<open>
  The branch for equal cell-id sets:
  \<^verbatim>\<open>
  if int(inner_value["rank"]) < int(value["rank"]):
      update_parent_info(inner_value, key, value)
  elif int(value["rank"]) < int(inner_value["rank"]):
      update_parent_info(value, inner_key, inner_value)
  else:
      raise ValueError(f"{key} and {inner_key} cell labels have the same cell_ids. ...")
  \<close>
\<close>

definition resolve_equal :: "string \<Rightarrow> entry \<Rightarrow> string \<Rightarrow> entry \<Rightarrow> lookup \<Rightarrow> py_error + lookup" where
  "resolve_equal key value inner_key inner_value st =
     (case py_int (rank inner_value) of
        Inl e \<Rightarrow> Inl e
      | Inr ri \<Rightarrow>
          (case py_int (rank value) of
             Inl e \<Rightarrow> Inl e
           | Inr rv \<Rightarrow>
               if ri < rv then
                 Inr (AList.update inner_key (update_parent_info inner_value key value) st)
               else if rv < ri then
                 Inr (AList.update key (update_parent_info value inner_key inner_value) st)
               else Inl (ValueError (same_cell_ids_message key inner_key))))"

text \<open>
  One pass of the loop body, for the pair \<open>(key, inner_key)\<close>. The two values are the
  dicts stored under the two keys, read in the state the earlier pairs have left. The
  loop takes its pairs from the items of the dict, so both keys are present and the two
  \<open>KeyError\<close> branches are never taken there (\<open>add_parent_cell_hierarchy_no_KeyError\<close>).
\<close>

definition hierarchy_step :: "string \<times> string \<Rightarrow> lookup \<Rightarrow> py_error + lookup" where
  "hierarchy_step p st =
     (case p of (key, inner_key) \<Rightarrow>
        (case map_of st key of
           None \<Rightarrow> Inl (KeyError key)
         | Some value \<Rightarrow>
             (case map_of st inner_key of
                None \<Rightarrow> Inl (KeyError inner_key)
              | Some inner_value \<Rightarrow>
                  (case skip_pair key value inner_key inner_value of
                     Inl e \<Rightarrow> Inl e
                   | Inr True \<Rightarrow> Inr st
                   | Inr False \<Rightarrow>
                       if cell_ids value \<noteq> cell_ids inner_value
                          \<and> cell_ids value \<subseteq> cell_ids inner_value
                       then Inr (AList.update key
                                   (update_parent_info value inner_key inner_value) st)
                       else if cell_ids value = cell_ids inner_value
                       then resolve_equal key value inner_key inner_value st
                       else Inr st))))"

fun hierarchy_loop :: "(string \<times> string) list \<Rightarrow> lookup \<Rightarrow> py_error + lookup" where
  "hierarchy_loop [] st = Inr st"
| "hierarchy_loop (p # ps) st =
     (case hierarchy_step p st of Inl e \<Rightarrow> Inl e | Inr st' \<Rightarrow> hierarchy_loop ps st')"

text \<open>
  \<^verbatim>\<open>
  def add_parent_cell_hierarchy(parent_cell_look_up):
      for (key, value), (inner_key, inner_value) in itertools.product(
              parent_cell_look_up.items(), repeat=2):
          ...
  \<close>
  The pairs come in the order of \<^verbatim>\<open>itertools.product\<close>: the first component runs
  slowest. The function returns nothing and changes the dict in place; the model returns
  the dict it leaves, or the exception.
\<close>

definition add_parent_cell_hierarchy :: "lookup \<Rightarrow> py_error + lookup" where
  "add_parent_cell_hierarchy parent_cell_look_up =
     hierarchy_loop (List.product (map fst parent_cell_look_up) (map fst parent_cell_look_up))
       parent_cell_look_up"

section \<open>Predicates for stating the properties of the hierarchy\<close>

text \<open>
  \<open>rank_lt a b\<close>: both ranks are integers for \<^verbatim>\<open>int\<close> and the rank of \<open>a\<close> is the
  smaller one.
\<close>

definition rank_lt :: "entry \<Rightarrow> entry \<Rightarrow> bool" where
  "rank_lt a b =
     (case py_int (rank a) of
        Inl e \<Rightarrow> False
      | Inr ra \<Rightarrow> (case py_int (rank b) of Inl e \<Rightarrow> False | Inr rb \<Rightarrow> ra < rb))"

text \<open>
  \<open>candidate child par\<close>: the two tests under which the loop body stores \<open>par\<close> as
  the parent of \<open>child\<close>: a strict superset of cells, or the same cells and a strictly
  higher rank.
\<close>

definition candidate :: "entry \<Rightarrow> entry \<Rightarrow> bool" where
  "candidate child par =
     (cell_ids child \<subset> cell_ids par \<or> (cell_ids child = cell_ids par \<and> rank_lt child par))"

text \<open>
  The invariant of the loop: every recorded parent is the key of an entry that is a
  candidate for the child, and \<open>p_accession\<close> and \<open>parent_rank\<close> are that entry's
  accession and rank.
\<close>

definition parent_ok :: "(string \<rightharpoonup> entry) \<Rightarrow> bool" where
  "parent_ok m =
     (\<forall>k e p. m k = Some e \<longrightarrow> parent e = Some p \<longrightarrow>
        (\<exists>pe. m p = Some pe \<and> candidate e pe
            \<and> p_accession e = Some (accession pe) \<and> parent_rank e = Some (rank pe)))"

text \<open>
  The part of an entry that the loop never changes, and the lookup reduced to it.
\<close>

definition fixed :: "entry \<Rightarrow> entry" where
  "fixed e = e\<lparr>parent := None, p_accession := None, parent_rank := None\<rparr>"

definition base :: "lookup \<Rightarrow> (string \<rightharpoonup> entry)" where
  "base st k = map_option fixed (map_of st k)"

text \<open>
  A lookup as \<open>generate_parent_cell_lookup\<close> builds it: no entry has a parent yet.
\<close>

definition unparented :: "lookup \<Rightarrow> bool" where
  "unparented lk = list_all (\<lambda>(k, e). parent e = None) lk"

text \<open>The parent relation of a lookup: \<open>(k, p)\<close> when the entry of \<open>k\<close> has parent \<open>p\<close>.\<close>

definition parent_links :: "lookup \<Rightarrow> (string \<times> string) set" where
  "parent_links r = {(k, p). \<exists>e. map_of r k = Some e \<and> parent e = Some p}"

text \<open>The labels whose entries have a parent, as a list and as a predicate on the dict.\<close>

definition parented :: "lookup \<Rightarrow> string list" where
  "parented r = map fst (filter (\<lambda>(k, e). parent e \<noteq> None) r)"

definition has_parent :: "(string \<rightharpoonup> entry) \<Rightarrow> string \<Rightarrow> bool" where
  "has_parent m k = (\<exists>e. m k = Some e \<and> parent e \<noteq> None)"

text \<open>An entry without parent, for the examples.\<close>

definition example_entry :: "string set \<Rightarrow> string \<Rightarrow> string \<Rightarrow> entry" where
  "example_entry cs acc r =
     \<lparr>cell_ids = cs, accession = acc, rank = r,
      cell_ontology_term_id = ''CL:0000000'', cell_ontology_term = ''cell'',
      parent = None, p_accession = None, parent_rank = None\<rparr>"

section \<open>Example lookups\<close>

text \<open>
  Three nested cell sets, finest first: cluster \<open>c1\<close>, subclass \<open>s1\<close>, class \<open>cl1\<close>.
\<close>

definition scenario_nested :: lookup where
  "scenario_nested =
     [(''c1'', example_entry {''1'', ''2''} ''acc_c1'' ''0''),
      (''s1'', example_entry {''1'', ''2'', ''3''} ''acc_s1'' ''1''),
      (''cl1'', example_entry {''1'', ''2'', ''3'', ''4''} ''acc_cl1'' ''2'')]"

text \<open>Two labels with the cell-id set \<open>{5, 6, 7}\<close>, at ranks 3 and 1.\<close>

definition scenario_equal_sets :: lookup where
  "scenario_equal_sets =
     [(''x'', example_entry {''5'', ''6'', ''7''} ''acc_x'' ''3''),
      (''y'', example_entry {''5'', ''6'', ''7''} ''acc_y'' ''1'')]"

text \<open>Two labels for the same two cells, at ranks 0 and 2.\<close>

definition scenario_synonyms :: lookup where
  "scenario_synonyms =
     [(''T cell'', example_entry {''1'', ''2''} ''acc_t'' ''0''),
      (''lymphocyte'', example_entry {''1'', ''2''} ''acc_l'' ''2'')]"

text \<open>
  \<open>A\<close> lies in \<open>B\<close> and in \<open>C\<close>, which have the same rank; the dict holds the three
  labels in the given order.
\<close>

definition scenario_two_supersets :: "string list \<Rightarrow> lookup" where
  "scenario_two_supersets order =
     map (\<lambda>k. (k, if k = ''A'' then example_entry {''1''} ''acc_A'' ''0''
               else if k = ''B'' then example_entry {''1'', ''2''} ''acc_B'' ''1''
               else example_entry {''1'', ''3''} ''acc_C'' ''1'')) order"

text \<open>Three nested sets whose ranks are those of the labelsets 0, 9 and 10 of eleven.\<close>

definition scenario_many_ranks :: lookup where
  "scenario_many_ranks =
     [(''A'', example_entry {''1''} ''acc_A'' ''0''),
      (''P'', example_entry {''1'', ''2''} ''acc_P'' ''9''),
      (''B'', example_entry {''1'', ''2'', ''3''} ''acc_B'' ''10'')]"

text \<open>
  \<open>A\<close> and \<open>B\<close> have the same cells and the same rank, and \<open>C\<close> contains both; the
  two lookups hold the same entries in a different order.
\<close>

definition scenario_superset_first :: lookup where
  "scenario_superset_first =
     [(''C'', example_entry {''1'', ''2'', ''3''} ''acc_C'' ''1''),
      (''A'', example_entry {''1'', ''2''} ''acc_A'' ''1''),
      (''B'', example_entry {''1'', ''2''} ''acc_B'' ''1'')]"

definition scenario_superset_last :: lookup where
  "scenario_superset_last =
     [(''A'', example_entry {''1'', ''2''} ''acc_A'' ''1''),
      (''B'', example_entry {''1'', ''2''} ''acc_B'' ''1''),
      (''C'', example_entry {''1'', ''2'', ''3''} ''acc_C'' ''1'')]"

text \<open>The same two cells under a cluster, a subclass and a class label.\<close>

definition scenario_equal_chain :: lookup where
  "scenario_equal_chain =
     [(''cluster'', example_entry {''1'', ''2''} ''acc_cluster'' ''0''),
      (''subclass'', example_entry {''1'', ''2''} ''acc_subclass'' ''1''),
      (''class'', example_entry {''1'', ''2''} ''acc_class'' ''2'')]"

section \<open>The table of observations and the labelsets\<close>

text \<open>
  \<^verbatim>\<open>anndata.obs\<close> is a data frame: an index of cell ids and named columns of the same
  length, read here as columns of strings. \<^verbatim>\<open>obs[name]\<close> raises \<^verbatim>\<open>KeyError\<close> for a
  column that is not there.
\<close>

record data_frame =
  index :: "string list"
  columns :: "(string \<times> string list) list"

text \<open>Rows chosen by a boolean mask, as \<^verbatim>\<open>df[mask]\<close> and \<^verbatim>\<open>index[mask]\<close> do.\<close>

definition select :: "bool list \<Rightarrow> 'a list \<Rightarrow> 'a list" where
  "select rows xs = map snd (filter fst (zip rows xs))"

text \<open>
  One value of \<^verbatim>\<open>labelset_dict\<close>, with its keys \<^verbatim>\<open>members\<close> and \<^verbatim>\<open>rank\<close> (here
  \<open>labelset_rank\<close>). \<open>members\<close> is a Python set; the list gives its elements in the
  order the loop meets them.
\<close>

record labelset_info =
  members :: "string list"
  labelset_rank :: string

type_synonym labelset_dict = "(string \<times> labelset_info) list"

text \<open>
  \<^verbatim>\<open>
  def calculate_labelset(obs, labelsets):
      labelset_dict = {}
      labelset_rank_dict = calculate_labelset_rank(labelsets)
      for item in labelsets:
          labelset_dict.update({item: {"members": set(obs[item]),
                                       "rank": str(labelset_rank_dict.get(item))}})
      return labelset_dict
  \<close>
  The rank is stored as a \<^verbatim>\<open>str\<close>.
\<close>

fun calculate_labelset_loop ::
  "data_frame \<Rightarrow> (string \<rightharpoonup> int) \<Rightarrow> string list \<Rightarrow> labelset_dict \<Rightarrow> py_error + labelset_dict" where
  "calculate_labelset_loop obs labelset_rank_dict [] d = Inr d"
| "calculate_labelset_loop obs labelset_rank_dict (item # rest) d =
     (case map_of (columns obs) item of
        None \<Rightarrow> Inl (KeyError item)
      | Some col \<Rightarrow>
          calculate_labelset_loop obs labelset_rank_dict rest
            (AList.update item
               \<lparr>members = remdups col,
                labelset_rank =
                  (case labelset_rank_dict item of None \<Rightarrow> ''None'' | Some r \<Rightarrow> py_str r)\<rparr>
               d))"

definition calculate_labelset :: "data_frame \<Rightarrow> string list \<Rightarrow> py_error + labelset_dict" where
  "calculate_labelset obs labelsets =
     calculate_labelset_loop obs (calculate_labelset_rank labelsets) labelsets []"

text \<open>
  \<^verbatim>\<open>
  def get_cell_ids(anndata_obs, labelset, cell_label):
      cell_label_lower = str(cell_label).lower()
      return anndata_obs.index[
          anndata_obs[labelset].astype(str).str.lower() == cell_label_lower].tolist()
  \<close>
\<close>

definition get_cell_ids :: "data_frame \<Rightarrow> string \<Rightarrow> string \<Rightarrow> py_error + string list" where
  "get_cell_ids anndata_obs labelset cell_label =
     (let cell_label_lower = lower cell_label in
      case map_of (columns anndata_obs) labelset of
        None \<Rightarrow> Inl (KeyError labelset)
      | Some col \<Rightarrow>
          Inr (select (map (\<lambda>v. lower v = cell_label_lower) col) (index anndata_obs)))"

text \<open>
  \<^verbatim>\<open>
  def get_cl_annotations_from_anndata(anndata_obs, columns_name, cell_label):
      filtered_df = anndata_obs[anndata_obs[columns_name] == cell_label]
      cell_ontology_term_id = filtered_df["cell_type_ontology_term_id"].iloc[0]
      cell_ontology_term = filtered_df["cell_type"].iloc[0]
      return cell_ontology_term_id, cell_ontology_term
  \<close>
  \<^verbatim>\<open>iloc[0]\<close> raises \<^verbatim>\<open>IndexError\<close> when no row is left.
\<close>

definition get_cl_annotations_from_anndata ::
  "data_frame \<Rightarrow> string \<Rightarrow> string \<Rightarrow> py_error + string \<times> string" where
  "get_cl_annotations_from_anndata anndata_obs columns_name cell_label =
     (case map_of (columns anndata_obs) columns_name of
        None \<Rightarrow> Inl (KeyError columns_name)
      | Some col \<Rightarrow>
          (let rows = map (\<lambda>v. v = cell_label) col in
           case map_of (columns anndata_obs) ''cell_type_ontology_term_id'' of
             None \<Rightarrow> Inl (KeyError ''cell_type_ontology_term_id'')
           | Some term_ids \<Rightarrow>
               (case select rows term_ids of
                  [] \<Rightarrow> Inl IndexError
                | term_id # _ \<Rightarrow>
                    (case map_of (columns anndata_obs) ''cell_type'' of
                       None \<Rightarrow> Inl (KeyError ''cell_type'')
                     | Some cell_types \<Rightarrow>
                         (case select rows cell_types of
                            [] \<Rightarrow> Inl IndexError
                          | term # _ \<Rightarrow> Inr (term_id, term))))))"

section \<open>Collecting the cell sets\<close>

text \<open>The dict literal stored for a label that is not in the lookup yet.\<close>

definition new_entry :: "string list \<Rightarrow> string \<Rightarrow> string \<Rightarrow> string \<Rightarrow> string \<Rightarrow> entry" where
  "new_entry cell_id_list cell_set_accession r term_id term =
     \<lparr>cell_ids = set cell_id_list, accession = cell_set_accession, rank = r,
      cell_ontology_term_id = term_id, cell_ontology_term = term,
      parent = None, p_accession = None, parent_rank = None\<rparr>"

text \<open>
  The body of the inner loop of \<^verbatim>\<open>generate_parent_cell_lookup\<close>, for the label
  \<open>label\<close> of the labelset \<open>k\<close> with value \<open>v\<close>:
  \<^verbatim>\<open>
  cell_ontology_term_id, cell_ontology_term = get_cl_annotations_from_anndata(
      anndata.obs, k, label)
  cell_ids = get_cell_ids(anndata.obs, k, label)
  cell_set_accession = accession_manager.generate_accession_id(
      cell_ids=cell_ids, labelset=k)
  if label in parent_cell_look_up:
      parent_cell_look_up[label]["cell_ids"].update(cell_ids)
  else:
      parent_cell_look_up[label] = {"cell_ids": set(cell_ids),
          "accession": cell_set_accession, "rank": v.get("rank"),
          "cell_ontology_term_id": cell_ontology_term_id,
          "cell_ontology_term": cell_ontology_term}
  \<close>
  \<^verbatim>\<open>HashAccessionManager\<close> is not part of these sources; its
  \<^verbatim>\<open>generate_accession_id\<close> is the parameter \<open>generate_accession_id\<close>, a function of the
  list of cell ids and the labelset name.
\<close>

definition lookup_label ::
  "(string list \<Rightarrow> string \<Rightarrow> string) \<Rightarrow> data_frame \<Rightarrow> string \<Rightarrow> labelset_info \<Rightarrow> string
     \<Rightarrow> lookup \<Rightarrow> py_error + lookup" where
  "lookup_label generate_accession_id obs k v label parent_cell_look_up =
     (case get_cl_annotations_from_anndata obs k label of
        Inl e \<Rightarrow> Inl e
      | Inr (term_id, term) \<Rightarrow>
          (case get_cell_ids obs k label of
             Inl e \<Rightarrow> Inl e
           | Inr cell_id_list \<Rightarrow>
               (let cell_set_accession = generate_accession_id cell_id_list k in
                case map_of parent_cell_look_up label of
                  Some e \<Rightarrow>
                    Inr (AList.update label
                           (e\<lparr>cell_ids := cell_ids e \<union> set cell_id_list\<rparr>)
                           parent_cell_look_up)
                | None \<Rightarrow>
                    Inr (AList.update label
                           (new_entry cell_id_list cell_set_accession (labelset_rank v)
                              term_id term)
                           parent_cell_look_up))))"

fun lookup_members ::
  "(string list \<Rightarrow> string \<Rightarrow> string) \<Rightarrow> data_frame \<Rightarrow> string \<Rightarrow> labelset_info \<Rightarrow> string list
     \<Rightarrow> lookup \<Rightarrow> py_error + lookup" where
  "lookup_members gen obs k v [] st = Inr st"
| "lookup_members gen obs k v (label # labels) st =
     (case lookup_label gen obs k v label st of
        Inl e \<Rightarrow> Inl e
      | Inr st' \<Rightarrow> lookup_members gen obs k v labels st')"

fun lookup_labelsets ::
  "(string list \<Rightarrow> string \<Rightarrow> string) \<Rightarrow> data_frame \<Rightarrow> labelset_dict \<Rightarrow> lookup
     \<Rightarrow> py_error + lookup" where
  "lookup_labelsets gen obs [] st = Inr st"
| "lookup_labelsets gen obs ((k, v) # rest) st =
     (case lookup_members gen obs k v (members v) st of
        Inl e \<Rightarrow> Inl e
      | Inr st' \<Rightarrow> lookup_labelsets gen obs rest st')"

text \<open>
  \<^verbatim>\<open>
  def generate_parent_cell_lookup(anndata, labelset_dict):
      accession_manager = HashAccessionManager()
      parent_cell_look_up = {}
      for k, v in labelset_dict.items():
          for label in v["members"]:
              ...
      return parent_cell_look_up
  \<close>
\<close>

definition generate_parent_cell_lookup ::
  "(string list \<Rightarrow> string \<Rightarrow> string) \<Rightarrow> data_frame \<Rightarrow> labelset_dict \<Rightarrow> py_error + lookup" where
  "generate_parent_cell_lookup generate_accession_id obs labelset_dict =
     lookup_labelsets generate_accession_id obs labelset_dict []"

section \<open>Predicates and examples for the collected cell sets\<close>

text \<open>The cells \<^verbatim>\<open>get_cell_ids\<close> finds, as a set; empty when it raises.\<close>

definition cells :: "data_frame \<Rightarrow> string \<Rightarrow> string \<Rightarrow> string set" where
  "cells obs k l = (case get_cell_ids obs k l of Inl e \<Rightarrow> {} | Inr c \<Rightarrow> set c)"

text \<open>The entry that the first labelset with the label \<open>l\<close> stores for it.\<close>

definition first_entry ::
  "(string list \<Rightarrow> string \<Rightarrow> string) \<Rightarrow> data_frame \<Rightarrow> string \<Rightarrow> labelset_info \<Rightarrow> string
     \<Rightarrow> entry option" where
  "first_entry gen obs k v l =
     (case get_cl_annotations_from_anndata obs k l of
        Inl e \<Rightarrow> None
      | Inr (term_id, term) \<Rightarrow>
          (case get_cell_ids obs k l of
             Inl e \<Rightarrow> None
           | Inr c \<Rightarrow> Some (new_entry c (gen c k) (labelset_rank v) term_id term)))"

text \<open>The labelsets that have \<open>l\<close> among their members, in the order of the dict.\<close>

definition occurrences :: "labelset_dict \<Rightarrow> string \<Rightarrow> labelset_dict" where
  "occurrences ld l = filter (\<lambda>(k, v). l \<in> set (members v)) ld"

definition all_cells :: "data_frame \<Rightarrow> labelset_dict \<Rightarrow> string \<Rightarrow> string set" where
  "all_cells obs ld l = (\<Union>(k, v) \<in> set (occurrences ld l). cells obs k l)"

text \<open>
  Three cells and two labelsets. The label \<open>T\<close> is used by the labelset \<open>class\<close> for
  the cells \<open>c1\<close> and \<open>c2\<close>, and by the labelset \<open>cluster\<close> for the cell \<open>c3\<close>.
\<close>

definition example_obs :: data_frame where
  "example_obs =
     \<lparr>index = [''c1'', ''c2'', ''c3''],
      columns =
        [(''class'', [''T'', ''T'', ''B'']),
         (''cluster'', [''x'', ''y'', ''T'']),
         (''cell_type_ontology_term_id'', [''CL:1'', ''CL:1'', ''CL:2'']),
         (''cell_type'', [''t cell'', ''t cell'', ''b cell''])]\<rparr>"

definition example_accession :: "string list \<Rightarrow> string \<Rightarrow> string" where
  "example_accession cell_id_list labelset = labelset @ '':'' @ concat cell_id_list"

text \<open>
  What the two iterations make of the entry of \<open>l\<close>, from the entry \<open>start\<close> the lookup has
  for it before the labelsets \<open>ld\<close> are processed.
\<close>

definition merged ::
  "(string list \<Rightarrow> string \<Rightarrow> string) \<Rightarrow> data_frame \<Rightarrow> labelset_dict \<Rightarrow> string
     \<Rightarrow> entry option \<Rightarrow> entry option" where
  "merged gen obs ld l start =
     (case start of
        Some e \<Rightarrow> Some (e\<lparr>cell_ids := cell_ids e \<union> all_cells obs ld l\<rparr>)
      | None \<Rightarrow>
          (case occurrences ld l of
             [] \<Rightarrow> None
           | (k0, v0) # _ \<Rightarrow>
               map_option (\<lambda>fe. fe\<lparr>cell_ids := cell_ids fe \<union> all_cells obs ld l\<rparr>)
                 (first_entry gen obs k0 v0 l)))"

text \<open>The labelsets \<open>class\<close> and \<open>cluster\<close> of the example table, as \<open>calculate_labelset\<close> gives them.\<close>

definition example_labelsets :: labelset_dict where
  "example_labelsets =
     [(''class'', \<lparr>members = [''T'', ''B''], labelset_rank = ''1''\<rparr>),
      (''cluster'', \<lparr>members = [''x'', ''y'', ''T''], labelset_rank = ''0''\<rparr>)]"

section \<open>Enriching the annotation records\<close>

text \<open>
  An annotation record is a dict from field names to strings or lists of strings
  (\<^verbatim>\<open>cell_ids\<close>); fields that would be \<^verbatim>\<open>None\<close> are left out when the record is
  built.
\<close>

datatype py_value = Str string | StrList "string list"

type_synonym annotation = "(string \<times> py_value) list"

text \<open>
  \<^verbatim>\<open>
  parent_dict = parent_cell_look_up.get(parent, {})
  if parent_dict.get("cell_ontology_term_id") == annotation.get("cell_ontology_term_id") \
          and parent_dict.get("cell_ontology_term") == annotation.get("cell_ontology_term"):
      annotation.pop("cell_ontology_term_id", None)
      annotation.pop("cell_ontology_term", None)
  \<close>
\<close>

definition remove_redundant :: "lookup \<Rightarrow> string \<Rightarrow> annotation \<Rightarrow> annotation" where
  "remove_redundant parent_cell_look_up par annotation =
     (let parent_dict = map_of parent_cell_look_up par in
      if map_option (\<lambda>e. Str (cell_ontology_term_id e)) parent_dict
           = map_of annotation ''cell_ontology_term_id''
         \<and> map_option (\<lambda>e. Str (cell_ontology_term e)) parent_dict
           = map_of annotation ''cell_ontology_term''
      then AList.delete ''cell_ontology_term''
             (AList.delete ''cell_ontology_term_id'' annotation)
      else annotation)"

text \<open>
  \<^verbatim>\<open>parent_cell_look_up.get(annotation.get("cell_label"), {})\<close>: the empty dict
  (\<open>None\<close>) for a record without label or with an unknown label; a list is not hashable
  and \<^verbatim>\<open>get\<close> raises \<^verbatim>\<open>TypeError\<close>.
\<close>

definition get_parent_info :: "lookup \<Rightarrow> annotation \<Rightarrow> py_error + entry option" where
  "get_parent_info parent_cell_look_up annotation =
     (case map_of annotation ''cell_label'' of
        None \<Rightarrow> Inr None
      | Some (Str l) \<Rightarrow> Inr (map_of parent_cell_look_up l)
      | Some (StrList ls) \<Rightarrow> Inl TypeError)"

text \<open>
  The body of the loop of \<^verbatim>\<open>add_parent_hierarchy_to_annotations\<close>:
  \<^verbatim>\<open>
  parent_info = parent_cell_look_up.get(annotation.get("cell_label"), {})
  parent = parent_info.get("parent")
  p_accession = parent_info.get("p_accession")
  if parent and p_accession:
      annotation.update({"parent_cell_set_name": parent,
                         "parent_cell_set_accession": p_accession})
      # Remove redundant CL annotations
      ...
  \<close>
\<close>

definition enrich_annotation :: "lookup \<Rightarrow> annotation \<Rightarrow> py_error + annotation" where
  "enrich_annotation parent_cell_look_up annotation =
     (case get_parent_info parent_cell_look_up annotation of
        Inl e \<Rightarrow> Inl e
      | Inr parent_info \<Rightarrow>
          (case Option.bind parent_info parent of
             None \<Rightarrow> Inr annotation
           | Some par \<Rightarrow>
               (case Option.bind parent_info p_accession of
                  None \<Rightarrow> Inr annotation
                | Some p_acc \<Rightarrow>
                    if par \<noteq> [] \<and> p_acc \<noteq> [] then
                      Inr (remove_redundant parent_cell_look_up par
                             (AList.update ''parent_cell_set_accession'' (Str p_acc)
                                (AList.update ''parent_cell_set_name'' (Str par) annotation)))
                    else Inr annotation)))"

text \<open>
  The loop changes the dicts of the list in place, one position after the other.
\<close>

fun enrich_from :: "lookup \<Rightarrow> nat list \<Rightarrow> annotation list \<Rightarrow> py_error + annotation list" where
  "enrich_from lk [] annotation_list = Inr annotation_list"
| "enrich_from lk (i # rest) annotation_list =
     (case enrich_annotation lk (annotation_list ! i) of
        Inl e \<Rightarrow> Inl e
      | Inr a \<Rightarrow> enrich_from lk rest (annotation_list[i := a]))"

text \<open>
  \<^verbatim>\<open>
  def add_parent_hierarchy_to_annotations(cas, parent_cell_look_up):
      annotation_list = cas.get("annotations", [])
      for annotation in annotation_list:
          ...
  \<close>
  The first argument is the list \<^verbatim>\<open>cas.get("annotations", [])\<close>, of distinct dicts as
  \<^verbatim>\<open>generate_cas_annotations\<close> appends them; the result is the list as the loop leaves
  it. The lookup is only read.
\<close>

definition add_parent_hierarchy_to_annotations ::
  "annotation list \<Rightarrow> lookup \<Rightarrow> py_error + annotation list" where
  "add_parent_hierarchy_to_annotations annotation_list parent_cell_look_up =
     enrich_from parent_cell_look_up [0..<length annotation_list] annotation_list"

text \<open>
  What must hold for a record of label \<open>l\<close> before its ontology fields are taken out:
  its entry has a parent and a parent accession, both non-empty, and the parent's entry
  has the same two ontology fields as the record.
\<close>

definition redundant_with_parent :: "lookup \<Rightarrow> annotation \<Rightarrow> bool" where
  "redundant_with_parent lk a =
     (\<exists>l e par p_acc.
        map_of a ''cell_label'' = Some (Str l) \<and> map_of lk l = Some e
      \<and> parent e = Some par \<and> par \<noteq> [] \<and> p_accession e = Some p_acc \<and> p_acc \<noteq> []
      \<and> map_option (\<lambda>e. Str (cell_ontology_term_id e)) (map_of lk par)
          = map_of a ''cell_ontology_term_id''
      \<and> map_option (\<lambda>e. Str (cell_ontology_term e)) (map_of lk par)
          = map_of a ''cell_ontology_term'')"

text \<open>
  A child and its parent with the same ontology term: the lookup after the hierarchy has
  been built, and the two annotation records.
\<close>

definition example_lookup :: lookup where
  "example_lookup =
     [(''child'', (example_entry {''1''} ''acc_child'' ''0'')
                    \<lparr>parent := Some ''par'', p_accession := Some ''acc_par'',
                     parent_rank := Some ''1''\<rparr>),
      (''par'', example_entry {''1'', ''2''} ''acc_par'' ''1'')]"

definition example_annotations :: "annotation list" where
  "example_annotations =
     [[(''labelset'', Str ''cluster''), (''cell_label'', Str ''child''),
       (''cell_fullname'', Str ''child''), (''cell_set_accession'', Str ''acc_child''),
       (''cell_ontology_term_id'', Str ''CL:0000000''), (''cell_ontology_term'', Str ''cell''),
       (''cell_ids'', StrList [''1''])],
      [(''labelset'', Str ''class''), (''cell_label'', Str ''par''),
       (''cell_fullname'', Str ''par''), (''cell_set_accession'', Str ''acc_par''),
       (''cell_ontology_term_id'', Str ''CL:0000000''), (''cell_ontology_term'', Str ''cell''),
       (''cell_ids'', StrList [''1'', ''2''])]]"

section \<open>Properties of the rank assignment\<close>

lemma put_rank_pair: "put_rank L (r, item) d = d(item \<mapsto> L - 1 - int r)"
  by (simp add: put_rank_def)

lemma fold_rank_other:
  "k \<notin> set xs \<Longrightarrow> fold (put_rank L) (enumerate n xs) m k = m k"
  by (induction xs arbitrary: n m) (auto simp: put_rank_pair)

lemma fold_rank_distinct:
  "distinct xs \<Longrightarrow> i < length xs \<Longrightarrow>
   fold (put_rank L) (enumerate n xs) m (xs ! i) = Some (L - 1 - int (n + i))"
proof (induction xs arbitrary: n m i)
  case Nil
  then show ?case by simp
next
  case (Cons x xs)
  show ?case
  proof (cases i)
    case 0
    from Cons.prems have "x \<notin> set xs" by simp
    from fold_rank_other [OF this, of L "Suc n" "m(x \<mapsto> L - 1 - int n)"] 0
    show ?thesis by (simp add: put_rank_pair)
  next
    case (Suc j)
    with Cons.prems have "distinct xs" "j < length xs" by simp_all
    from Cons.IH [OF this] Suc show ?thesis by simp
  qed
qed

lemma rank_at_position:
  "distinct xs \<Longrightarrow> i < length xs \<Longrightarrow>
   calculate_labelset_rank xs (xs ! i) = Some (int (length xs) - 1 - int i)"
  using fold_rank_distinct [of xs i "int (length xs)" 0 Map.empty]
  by (simp add: calculate_labelset_rank_def)

text \<open>
  Claim C9, amended. For a list of \<open>n\<close> pairwise distinct labelset names,
  \<open>calculate_labelset_rank\<close> maps the name at 0-based position \<open>i\<close> to \<open>n - 1 - i\<close>:
  the first name receives \<open>n - 1\<close>, the last receives \<open>0\<close>, and the ranks strictly
  decrease along the list.
\<close>

theorem calculate_labelset_rank_formula:
  assumes "distinct input_list"
  shows "(\<forall>i < length input_list.
            calculate_labelset_rank input_list (input_list ! i)
              = Some (int (length input_list) - 1 - int i))
       \<and> (input_list \<noteq> [] \<longrightarrow>
            calculate_labelset_rank input_list (hd input_list)
              = Some (int (length input_list) - 1)
          \<and> calculate_labelset_rank input_list (last input_list) = Some 0)
       \<and> (\<forall>i j. i < j \<and> j < length input_list \<longrightarrow>
            (\<exists>ri rj. calculate_labelset_rank input_list (input_list ! i) = Some ri
                   \<and> calculate_labelset_rank input_list (input_list ! j) = Some rj
                   \<and> rj < ri))"
proof (intro conjI allI impI)
  fix i assume "i < length input_list"
  with assms show "calculate_labelset_rank input_list (input_list ! i)
      = Some (int (length input_list) - 1 - int i)"
    by (rule rank_at_position)
next
  assume ne: "input_list \<noteq> []"
  then have "0 < length input_list" by simp
  from rank_at_position [OF assms this] ne
  show "calculate_labelset_rank input_list (hd input_list) = Some (int (length input_list) - 1)"
    by (simp add: hd_conv_nth)
next
  assume ne: "input_list \<noteq> []"
  then have "length input_list - 1 < length input_list" by simp
  moreover from ne have "int (length input_list - 1) = int (length input_list) - 1"
    by (cases input_list) simp_all
  ultimately show "calculate_labelset_rank input_list (last input_list) = Some 0"
    using rank_at_position [OF assms, of "length input_list - 1"] ne
    by (simp add: last_conv_nth)
next
  fix i j assume ij: "i < j \<and> j < length input_list"
  then have "i < length input_list" "j < length input_list" by simp_all
  with assms ij show "\<exists>ri rj. calculate_labelset_rank input_list (input_list ! i) = Some ri
      \<and> calculate_labelset_rank input_list (input_list ! j) = Some rj \<and> rj < ri"
    by (simp add: rank_at_position)
qed

theorem calculate_labelset_rank_formula_witness:
  "distinct [''Class'', ''Subclass'', ''Cluster'']
   \<and> calculate_labelset_rank [''Class'', ''Subclass'', ''Cluster''] ''Class'' = Some 2
   \<and> calculate_labelset_rank [''Class'', ''Subclass'', ''Cluster''] ''Subclass'' = Some 1
   \<and> calculate_labelset_rank [''Class'', ''Subclass'', ''Cluster''] ''Cluster'' = Some 0"
proof -
  have d: "distinct [''Class'', ''Subclass'', ''Cluster'']" by simp
  from calculate_labelset_rank_formula [OF d]
  have a: "\<forall>i<3. calculate_labelset_rank [''Class'', ''Subclass'', ''Cluster'']
           ([''Class'', ''Subclass'', ''Cluster''] ! i) = Some (int 3 - 1 - int i)"
    by simp
  from a [rule_format, of 0] a [rule_format, of 1] a [rule_format, of 2]
  have "calculate_labelset_rank [''Class'', ''Subclass'', ''Cluster'']
           ([''Class'', ''Subclass'', ''Cluster''] ! 0) = Some (int 3 - 1 - int 0)"
    and "calculate_labelset_rank [''Class'', ''Subclass'', ''Cluster'']
           ([''Class'', ''Subclass'', ''Cluster''] ! 1) = Some (int 3 - 1 - int 1)"
    and "calculate_labelset_rank [''Class'', ''Subclass'', ''Cluster'']
           ([''Class'', ''Subclass'', ''Cluster''] ! 2) = Some (int 3 - 1 - int 2)"
    by simp_all
  with d show ?thesis by simp
qed

text \<open>
  The name at position 0 of a list of three names would receive rank 2 by the formula;
  when it occurs again at position 2 it receives 0.
\<close>

theorem calculate_labelset_rank_duplicate:
  "calculate_labelset_rank [''a'', ''b'', ''a''] ([''a'', ''b'', ''a''] ! 0) = Some 0
   \<and> Some (0::int) \<noteq> Some (int (length [''a'', ''b'', ''a'']) - 1 - int 0)"
  by (simp add: calculate_labelset_rank_def put_rank_pair)

section \<open>Properties of the hierarchy construction\<close>

lemma update_parent_info_fields [simp]:
  "cell_ids (update_parent_info a k b) = cell_ids a"
  "rank (update_parent_info a k b) = rank a"
  "accession (update_parent_info a k b) = accession a"
  "cell_ontology_term_id (update_parent_info a k b) = cell_ontology_term_id a"
  "cell_ontology_term (update_parent_info a k b) = cell_ontology_term a"
  "parent (update_parent_info a k b) = Some k"
  "p_accession (update_parent_info a k b) = Some (accession b)"
  "parent_rank (update_parent_info a k b) = Some (rank b)"
  by (simp_all add: update_parent_info_def)

lemma fixed_update_parent_info [simp]: "fixed (update_parent_info a k b) = fixed a"
  by (simp add: fixed_def update_parent_info_def)

lemma rank_lt_update [simp]:
  "rank_lt (update_parent_info a k b) c = rank_lt a c"
  "rank_lt c (update_parent_info a k b) = rank_lt c a"
  by (simp_all add: rank_lt_def split: sum.splits)

lemma candidate_update [simp]:
  "candidate (update_parent_info a k b) c = candidate a c"
  "candidate c (update_parent_info a k b) = candidate c a"
  by (simp_all add: candidate_def)

lemma rank_lt_irrefl [simp]: "\<not> rank_lt a a"
  by (simp add: rank_lt_def split: sum.splits)

lemma rank_lt_trans: "rank_lt a b \<Longrightarrow> rank_lt b c \<Longrightarrow> rank_lt a c"
  by (auto simp: rank_lt_def split: sum.splits)

lemma candidate_irrefl [simp]: "\<not> candidate a a"
  by (simp add: candidate_def)

lemma candidate_trans: "candidate a b \<Longrightarrow> candidate b c \<Longrightarrow> candidate a c"
  unfolding candidate_def using rank_lt_trans by auto

lemma skip_pair_False: "skip_pair key value inner_key inner_value = Inr False \<Longrightarrow> key \<noteq> inner_key"
  by (auto simp: skip_pair_def)

lemma resolve_equal_Inr:
  assumes "resolve_equal key value inner_key inner_value st = Inr st'"
    and "cell_ids value = cell_ids inner_value"
  shows "(candidate inner_value value
            \<and> st' = AList.update inner_key (update_parent_info inner_value key value) st)
       \<or> (candidate value inner_value
            \<and> st' = AList.update key (update_parent_info value inner_key inner_value) st)"
  using assms
  by (auto simp: resolve_equal_def candidate_def rank_lt_def split: sum.splits if_splits)

lemma hierarchy_step_Inr:
  assumes "hierarchy_step (key, inner_key) st = Inr st'"
  shows "st' = st
       \<or> (\<exists>c p ce pe. c \<noteq> p \<and> map_of st c = Some ce \<and> map_of st p = Some pe
             \<and> candidate ce pe \<and> st' = AList.update c (update_parent_info ce p pe) st)"
proof -
  from assms obtain "value" inner_value where
    v: "map_of st key = Some value" and iv: "map_of st inner_key = Some inner_value"
    by (auto simp: hierarchy_step_def split: option.splits)
  show ?thesis
  proof (cases "skip_pair key value inner_key inner_value")
    case (Inl e)
    with assms v iv show ?thesis by (simp add: hierarchy_step_def)
  next
    case (Inr b)
    show ?thesis
    proof (cases b)
      case True
      with Inr assms v iv show ?thesis by (simp add: hierarchy_step_def)
    next
      case False
      with Inr have ne: "key \<noteq> inner_key" by (simp add: skip_pair_False)
      consider (sub) "cell_ids value \<subset> cell_ids inner_value"
        | (eq) "cell_ids value = cell_ids inner_value"
        | (none) "\<not> cell_ids value \<subseteq> cell_ids inner_value"
        by auto
      then show ?thesis
      proof cases
        case sub
        then have "cell_ids value \<noteq> cell_ids inner_value"
          "cell_ids value \<subseteq> cell_ids inner_value" by auto
        with False Inr assms v iv
        have "st' = AList.update key (update_parent_info value inner_key inner_value) st"
          by (simp add: hierarchy_step_def)
        moreover from sub have "candidate value inner_value" by (simp add: candidate_def)
        ultimately show ?thesis using ne v iv by blast
      next
        case eq
        with False Inr assms v iv
        have "resolve_equal key value inner_key inner_value st = Inr st'"
          by (simp add: hierarchy_step_def)
        from resolve_equal_Inr [OF this eq] ne v iv show ?thesis
          by (metis)
      next
        case none
        then have "cell_ids value \<noteq> cell_ids inner_value" by auto
        with none False Inr assms v iv have "st' = st" by (simp add: hierarchy_step_def)
        then show ?thesis by simp
      qed
    qed
  qed
qed

lemma parent_ok_update:
  assumes ok: "parent_ok (map_of st)"
    and c: "map_of st c = Some ce" and p: "map_of st p = Some pe"
    and cand: "candidate ce pe"
  shows "parent_ok (map_of (AList.update c (update_parent_info ce p pe) st))"
proof -
  from cand c p have ne: "c \<noteq> p" by auto
  show ?thesis
    unfolding parent_ok_def update_conv'
  proof (intro allI impI)
    fix k e q
    assume k: "((map_of st)(c \<mapsto> update_parent_info ce p pe)) k = Some e"
      and q: "parent e = Some q"
    show "\<exists>qe. ((map_of st)(c \<mapsto> update_parent_info ce p pe)) q = Some qe \<and> candidate e qe
            \<and> p_accession e = Some (accession qe) \<and> parent_rank e = Some (rank qe)"
    proof (cases "k = c")
      case True
      with k q have "e = update_parent_info ce p pe" "q = p" by auto
      with ne p cand show ?thesis by simp
    next
      case False
      with k have "map_of st k = Some e" by simp
      with ok q obtain qe where qe: "map_of st q = Some qe" "candidate e qe"
        "p_accession e = Some (accession qe)" "parent_rank e = Some (rank qe)"
        unfolding parent_ok_def by blast
      show ?thesis
      proof (cases "q = c")
        case True
        with qe c have "qe = ce" by simp
        with True qe show ?thesis by simp
      next
        case False
        with qe show ?thesis by simp
      qed
    qed
  qed
qed

lemma hierarchy_step_parent_ok:
  "hierarchy_step pr st = Inr st' \<Longrightarrow> parent_ok (map_of st) \<Longrightarrow> parent_ok (map_of st')"
  using hierarchy_step_Inr [of "fst pr" "snd pr" st st'] parent_ok_update by auto

lemma hierarchy_loop_parent_ok:
  "hierarchy_loop ps st = Inr st' \<Longrightarrow> parent_ok (map_of st) \<Longrightarrow> parent_ok (map_of st')"
proof (induction ps arbitrary: st)
  case Nil
  then show ?case by simp
next
  case (Cons pr ps)
  then show ?case
    by (auto split: sum.splits dest: hierarchy_step_parent_ok)
qed

lemma unparented_parent_ok: "unparented lk \<Longrightarrow> parent_ok (map_of lk)"
  unfolding parent_ok_def unparented_def list_all_iff
  by (auto dest!: map_of_SomeD)

lemma add_parent_cell_hierarchy_parent_ok:
  "add_parent_cell_hierarchy lk = Inr r \<Longrightarrow> unparented lk \<Longrightarrow> parent_ok (map_of r)"
  unfolding add_parent_cell_hierarchy_def
  by (blast intro: hierarchy_loop_parent_ok unparented_parent_ok)

lemma candidate_ranks:
  "candidate a b \<Longrightarrow>
   cell_ids a \<subset> cell_ids b
   \<or> (cell_ids a = cell_ids b
        \<and> (\<exists>ra rb. py_int (rank a) = Inr ra \<and> py_int (rank b) = Inr rb \<and> ra < rb))"
  by (auto simp: candidate_def rank_lt_def split: sum.splits)

text \<open>
  Claim C2, amended. After \<open>add_parent_cell_hierarchy\<close> has returned on a lookup
  whose entries had no parent, every entry \<open>A\<close> with a recorded parent \<open>B\<close> has
  a cell-id set that is a strict subset of \<open>B\<close>'s, or the same cell-id set as
  \<open>B\<close> and a rank strictly below \<open>B\<close>'s: the parent's rank is the higher one.
\<close>

theorem parent_is_superset_or_higher_rank:
  assumes "add_parent_cell_hierarchy lk = Inr r" and "unparented lk"
    and "map_of r a = Some ea" and "parent ea = Some b"
  shows "\<exists>eb. map_of r b = Some eb
           \<and> (cell_ids ea \<subset> cell_ids eb
                \<or> (cell_ids ea = cell_ids eb
                     \<and> (\<exists>ra rb. py_int (rank ea) = Inr ra \<and> py_int (rank eb) = Inr rb
                            \<and> ra < rb)))"
proof -
  from assms(1,2) have "parent_ok (map_of r)" by (rule add_parent_cell_hierarchy_parent_ok)
  with assms(3,4) obtain eb where "map_of r b = Some eb" "candidate ea eb"
    unfolding parent_ok_def by blast
  then show ?thesis using candidate_ranks by blast
qed

lemma parent_links_candidate:
  assumes "parent_ok (map_of r)"
  shows "parent_links r
           \<subseteq> {(k, p). \<exists>e pe. map_of r k = Some e \<and> map_of r p = Some pe \<and> candidate e pe}"
  using assms unfolding parent_links_def parent_ok_def by blast

lemma candidate_rel_acyclic:
  "acyclic {(k, p). \<exists>e pe. m k = Some e \<and> m p = Some pe \<and> candidate e pe}"
proof -
  let ?S = "{(k, p). \<exists>e pe. m k = Some e \<and> m p = Some pe \<and> candidate e pe}"
  have "trans ?S"
    by (rule transI) (auto intro: candidate_trans)
  then have "?S\<^sup>+ = ?S" by (rule trancl_id)
  moreover have "(x, x) \<notin> ?S" for x by auto
  ultimately show ?thesis unfolding acyclic_def by simp
qed

lemma parent_links_finite: "finite (parent_links r)"
proof -
  have "parent_links r \<subseteq> (\<lambda>(k, e). (k, the (parent e))) ` set r"
  proof
    fix x assume "x \<in> parent_links r"
    then obtain k p e where x: "x = (k, p)" and e: "map_of r k = Some e" "parent e = Some p"
      unfolding parent_links_def by blast
    from e(1) have "(k, e) \<in> set r" by (rule map_of_SomeD)
    moreover from e(2) x have "x = (\<lambda>(k, e). (k, the (parent e))) (k, e)" by simp
    ultimately show "x \<in> (\<lambda>(k, e). (k, the (parent e))) ` set r" by (rule rev_image_eqI)
  qed
  then show ?thesis by (rule finite_subset) simp
qed

text \<open>
  Claim C7. After \<open>add_parent_cell_hierarchy\<close> has returned without raising, on a
  lookup whose entries had no parent, following parent links from any entry terminates
  (the converse of the links is well-founded), no entry is its own parent and no entry is
  its own ancestor.
\<close>

theorem parent_links_acyclic:
  assumes "add_parent_cell_hierarchy lk = Inr r" and "unparented lk"
  shows "wf ((parent_links r)\<inverse>)
       \<and> (\<forall>k. (k, k) \<notin> parent_links r)
       \<and> (\<forall>k. (k, k) \<notin> (parent_links r)\<^sup>+)"
proof -
  from assms have "parent_ok (map_of r)" by (rule add_parent_cell_hierarchy_parent_ok)
  then have ac: "acyclic (parent_links r)"
    using parent_links_candidate candidate_rel_acyclic acyclic_subset by blast
  with parent_links_finite have "wf ((parent_links r)\<inverse>)"
    by (rule finite_acyclic_wf_converse)
  moreover from ac have "\<forall>k. (k, k) \<notin> (parent_links r)\<^sup>+"
    by (simp add: acyclic_def)
  moreover from this have "\<forall>k. (k, k) \<notin> parent_links r" by blast
  ultimately show ?thesis by simp
qed

lemma fixed_fields [simp]: "cell_ids (fixed a) = cell_ids a" "rank (fixed a) = rank a"
  by (simp_all add: fixed_def)

lemma rank_lt_fixed [simp]:
  "rank_lt (fixed a) b = rank_lt a b" "rank_lt a (fixed b) = rank_lt a b"
  by (simp_all add: rank_lt_def split: sum.splits)

lemma candidate_fixed [simp]:
  "candidate (fixed a) b = candidate a b" "candidate a (fixed b) = candidate a b"
  by (simp_all add: candidate_def)

lemma hierarchy_step_keys:
  assumes "hierarchy_step pr st = Inr st'"
  shows "map fst st' = map fst st"
proof -
  from hierarchy_step_Inr [of "fst pr" "snd pr" st st'] assms
  consider "st' = st"
    | c p ce pe where "map_of st c = Some ce" "st' = AList.update c (update_parent_info ce p pe) st"
    by auto
  then show ?thesis
  proof cases
    case 1
    then show ?thesis by simp
  next
    case 2
    from 2(1) have "c \<in> set (map fst st)" by (metis domI dom_map_of_conv_image_fst set_map)
    with 2(2) show ?thesis by (simp add: update_keys)
  qed
qed

lemma base_update:
  "map_of st c = Some ce \<Longrightarrow> base (AList.update c (update_parent_info ce p pe) st) = base st"
  by (rule ext) (simp add: base_def update_conv')

lemma hierarchy_step_base:
  assumes "hierarchy_step pr st = Inr st'"
  shows "base st' = base st"
  using hierarchy_step_Inr [of "fst pr" "snd pr" st st'] assms base_update by auto

lemma has_parent_update:
  "has_parent (map_of st) k \<Longrightarrow>
   has_parent (map_of (AList.update c (update_parent_info ce p pe) st)) k"
  by (auto simp: has_parent_def update_conv')

lemma hierarchy_step_has_parent:
  assumes "hierarchy_step pr st = Inr st'" and "has_parent (map_of st) k"
  shows "has_parent (map_of st') k"
  using hierarchy_step_Inr [of "fst pr" "snd pr" st st'] assms has_parent_update by auto

lemma skip_pair_True:
  "skip_pair a ea b eb = Inr True \<Longrightarrow> a \<noteq> b \<Longrightarrow> parent ea \<noteq> None"
  by (auto simp: skip_pair_def split: option.splits if_splits)

lemma hierarchy_step_gives_parent:
  assumes step: "hierarchy_step (a, b) st = Inr st'"
    and a: "map_of st a = Some ea" and b: "map_of st b = Some eb"
    and cand: "candidate ea eb"
  shows "has_parent (map_of st') a"
proof -
  from cand a b have ne: "a \<noteq> b" by auto
  show ?thesis
  proof (cases "skip_pair a ea b eb")
    case (Inl e)
    with step a b show ?thesis by (simp add: hierarchy_step_def)
  next
    case (Inr skip)
    show ?thesis
    proof (cases skip)
      case True
      with Inr ne have "parent ea \<noteq> None" by (simp add: skip_pair_True)
      moreover from True Inr step a b have "st' = st" by (simp add: hierarchy_step_def)
      ultimately show ?thesis using a by (simp add: has_parent_def)
    next
      case False
      from cand consider (sub) "cell_ids ea \<noteq> cell_ids eb" "cell_ids ea \<subseteq> cell_ids eb"
        | (eq) "cell_ids ea = cell_ids eb" "rank_lt ea eb"
        unfolding candidate_def by auto
      then have "st' = AList.update a (update_parent_info ea b eb) st"
      proof cases
        case sub
        with False Inr step a b show ?thesis by (simp add: hierarchy_step_def)
      next
        case eq
        with False Inr step a b have "resolve_equal a ea b eb st = Inr st'"
          by (simp add: hierarchy_step_def)
        with eq(2) show ?thesis
          by (auto simp: resolve_equal_def rank_lt_def split: sum.splits if_splits)
      qed
      then show ?thesis by (simp add: has_parent_def update_conv')
    qed
  qed
qed

lemma hierarchy_loop_base:
  "hierarchy_loop ps st = Inr st' \<Longrightarrow> base st' = base st"
proof (induction ps arbitrary: st)
  case Nil
  then show ?case by simp
next
  case (Cons pr ps)
  from Cons.prems obtain st1 where s: "hierarchy_step pr st = Inr st1"
    and l: "hierarchy_loop ps st1 = Inr st'"
    by (auto split: sum.splits)
  from Cons.IH [OF l] hierarchy_step_base [OF s] show ?case by simp
qed

lemma hierarchy_loop_keys:
  "hierarchy_loop ps st = Inr st' \<Longrightarrow> map fst st' = map fst st"
proof (induction ps arbitrary: st)
  case Nil
  then show ?case by simp
next
  case (Cons pr ps)
  from Cons.prems obtain st1 where s: "hierarchy_step pr st = Inr st1"
    and l: "hierarchy_loop ps st1 = Inr st'"
    by (auto split: sum.splits)
  from Cons.IH [OF l] hierarchy_step_keys [OF s] show ?case by simp
qed

lemma hierarchy_loop_has_parent:
  "hierarchy_loop ps st = Inr st' \<Longrightarrow> has_parent (map_of st) k \<Longrightarrow> has_parent (map_of st') k"
proof (induction ps arbitrary: st)
  case Nil
  then show ?case by simp
next
  case (Cons pr ps)
  from Cons.prems(1) obtain st1 where s: "hierarchy_step pr st = Inr st1"
    and l: "hierarchy_loop ps st1 = Inr st'"
    by (auto split: sum.splits)
  from hierarchy_step_has_parent [OF s Cons.prems(2)] Cons.IH [OF l] show ?case by simp
qed

lemma base_Some: "base st k = Some f \<Longrightarrow> \<exists>e. map_of st k = Some e \<and> f = fixed e"
  by (auto simp: base_def)

lemma hierarchy_loop_gives_parent:
  assumes "hierarchy_loop ps st = Inr st'" and "(a, b) \<in> set ps"
    and "base st a = Some fa" and "base st b = Some fb" and "candidate fa fb"
  shows "has_parent (map_of st') a"
  using assms
proof (induction ps arbitrary: st)
  case Nil
  then show ?case by simp
next
  case (Cons pr ps)
  from Cons.prems(1) obtain st1 where s: "hierarchy_step pr st = Inr st1"
    and l: "hierarchy_loop ps st1 = Inr st'"
    by (auto split: sum.splits)
  show ?case
  proof (cases "pr = (a, b)")
    case True
    from base_Some [OF Cons.prems(3)] base_Some [OF Cons.prems(4)] Cons.prems(5)
    obtain ea eb where "map_of st a = Some ea" "map_of st b = Some eb" "candidate ea eb"
      by auto
    with s True have "has_parent (map_of st1) a"
      using hierarchy_step_gives_parent by blast
    with l show ?thesis by (rule hierarchy_loop_has_parent)
  next
    case False
    with Cons.prems(2) have "(a, b) \<in> set ps" by simp
    moreover from hierarchy_step_base [OF s] Cons.prems(3,4)
    have "base st1 a = Some fa" "base st1 b = Some fb" by simp_all
    ultimately show ?thesis using Cons.IH [OF l] Cons.prems(5) by blast
  qed
qed

lemma parent_ok_has_parent:
  assumes "parent_ok (map_of r)" and "has_parent (map_of r) a"
  shows "\<exists>b fa fb. base r a = Some fa \<and> base r b = Some fb \<and> candidate fa fb"
proof -
  from assms(2) obtain e p where e: "map_of r a = Some e" "parent e = Some p"
    by (auto simp: has_parent_def)
  with assms(1) obtain pe where "map_of r p = Some pe" "candidate e pe"
    unfolding parent_ok_def by blast
  with e(1) have "base r a = Some (fixed e)" "base r p = Some (fixed pe)"
    "candidate (fixed e) (fixed pe)"
    by (simp_all add: base_def)
  then show ?thesis by blast
qed

lemma has_parent_iff_candidate:
  assumes run: "add_parent_cell_hierarchy lk = Inr r" and un: "unparented lk"
  shows "has_parent (map_of r) a
           \<longleftrightarrow> (\<exists>b fa fb. base lk a = Some fa \<and> base lk b = Some fb \<and> candidate fa fb)"
proof
  from run have b: "base r = base lk"
    unfolding add_parent_cell_hierarchy_def by (rule hierarchy_loop_base)
  {
    assume "has_parent (map_of r) a"
    with add_parent_cell_hierarchy_parent_ok [OF run un] b
    show "\<exists>b fa fb. base lk a = Some fa \<and> base lk b = Some fb \<and> candidate fa fb"
      using parent_ok_has_parent by fastforce
  next
    assume "\<exists>b fa fb. base lk a = Some fa \<and> base lk b = Some fb \<and> candidate fa fb"
    then obtain b fa fb where c: "base lk a = Some fa" "base lk b = Some fb" "candidate fa fb"
      by blast
    from c(1,2) have "a \<in> set (map fst lk)" "b \<in> set (map fst lk)"
      by (auto simp: base_def dest!: map_of_SomeD intro: rev_image_eqI)
    then have "(a, b) \<in> set (List.product (map fst lk) (map fst lk))" by simp
    with run c show "has_parent (map_of r) a"
      unfolding add_parent_cell_hierarchy_def using hierarchy_loop_gives_parent by blast
  }
qed

lemma set_parented:
  "distinct (map fst r) \<Longrightarrow> set (parented r) = {k. has_parent (map_of r) k}"
  by (auto simp: parented_def has_parent_def dest: map_of_SomeD intro: rev_image_eqI)

text \<open>
  Claim C4, amended. Which entries end up with a parent does not depend on the order
  in which the dict holds them: for two lookups with the same entries, both without
  parents at the start, on which \<open>add_parent_cell_hierarchy\<close> returns, the same labels
  have a parent afterwards. Nothing is said about which of several candidates is
  recorded as the parent.
\<close>

theorem parented_order_independent:
  assumes "distinct (map fst lk1)" and "distinct (map fst lk2)" and "set lk1 = set lk2"
    and "unparented lk1"
    and "add_parent_cell_hierarchy lk1 = Inr r1" and "add_parent_cell_hierarchy lk2 = Inr r2"
  shows "set (parented r1) = set (parented r2)"
proof -
  from assms(3,4) have un2: "unparented lk2" by (simp add: unparented_def list_all_iff)
  from assms(1,2,3) have "map_of lk1 = map_of lk2" by (simp add: map_of_inject_set)
  then have b: "base lk1 = base lk2" by (simp add: base_def fun_eq_iff)
  from assms(5) have "map fst r1 = map fst lk1"
    unfolding add_parent_cell_hierarchy_def by (rule hierarchy_loop_keys)
  with assms(1) have d1: "distinct (map fst r1)" by simp
  from assms(6) have "map fst r2 = map fst lk2"
    unfolding add_parent_cell_hierarchy_def by (rule hierarchy_loop_keys)
  with assms(2) have d2: "distinct (map fst r2)" by simp
  from has_parent_iff_candidate [OF assms(5,4)] has_parent_iff_candidate [OF assms(6) un2] b
  have "has_parent (map_of r1) k = has_parent (map_of r2) k" for k by simp
  with d1 d2 show ?thesis by (simp add: set_parented)
qed

text \<open>
  Claim C1, amended. When the loop body handles a pair of distinct entries with equal
  cell-id sets and different ranks, and the guard does not skip the pair, the entry with
  the strictly higher rank becomes the parent of the entry with the strictly lower rank:
  the lower-rank entry's \<open>parent\<close>, \<open>p_accession\<close> and \<open>parent_rank\<close> are
  set to the label, accession and rank of the higher-rank entry, which stays as it was.
\<close>

theorem equal_sets_higher_rank_becomes_parent:
  assumes "map_of st key = Some value" and "map_of st inner_key = Some inner_value"
    and "skip_pair key value inner_key inner_value = Inr False"
    and "cell_ids value = cell_ids inner_value"
    and "py_int (rank value) = Inr rv" and "py_int (rank inner_value) = Inr ri"
    and "rv \<noteq> ri"
  shows "\<exists>st'. hierarchy_step (key, inner_key) st = Inr st'
           \<and> (if rv < ri
               then map_of st' key
                      = Some (value\<lparr>parent := Some inner_key,
                                     p_accession := Some (accession inner_value),
                                     parent_rank := Some (rank inner_value)\<rparr>)
                    \<and> map_of st' inner_key = Some inner_value
               else map_of st' inner_key
                      = Some (inner_value\<lparr>parent := Some key,
                                           p_accession := Some (accession value),
                                           parent_rank := Some (rank value)\<rparr>)
                    \<and> map_of st' key = Some value)"
proof -
  from assms(3) have ne: "key \<noteq> inner_key" by (rule skip_pair_False)
  from assms(1-4)
  have step: "hierarchy_step (key, inner_key) st = resolve_equal key value inner_key inner_value st"
    by (simp add: hierarchy_step_def)
  show ?thesis
  proof (cases "rv < ri")
    case True
    with assms(5,6) have "resolve_equal key value inner_key inner_value st
        = Inr (AList.update key (update_parent_info value inner_key inner_value) st)"
      by (simp add: resolve_equal_def)
    with step True ne assms(2) show ?thesis
      by (simp add: update_conv' update_parent_info_def)
  next
    case False
    with assms(7) have "ri < rv" by simp
    with assms(5,6) have "resolve_equal key value inner_key inner_value st
        = Inr (AList.update inner_key (update_parent_info inner_value key value) st)"
      by (simp add: resolve_equal_def)
    with step False ne assms(1) show ?thesis
      by (simp add: update_conv' update_parent_info_def)
  qed
qed

theorem equal_sets_higher_rank_becomes_parent_witness:
  "map_of scenario_equal_sets ''x'' = Some (example_entry {''5'', ''6'', ''7''} ''acc_x'' ''3'')
   \<and> map_of scenario_equal_sets ''y'' = Some (example_entry {''5'', ''6'', ''7''} ''acc_y'' ''1'')
   \<and> skip_pair ''x'' (example_entry {''5'', ''6'', ''7''} ''acc_x'' ''3'')
        ''y'' (example_entry {''5'', ''6'', ''7''} ''acc_y'' ''1'') = Inr False
   \<and> py_int (rank (example_entry {''5'', ''6'', ''7''} ''acc_x'' ''3'')) = Inr 3
   \<and> py_int (rank (example_entry {''5'', ''6'', ''7''} ''acc_y'' ''1'')) = Inr 1
   \<and> (\<exists>st'. hierarchy_step (''x'', ''y'') scenario_equal_sets = Inr st'
         \<and> map_of st' ''y''
             = Some ((example_entry {''5'', ''6'', ''7''} ''acc_y'' ''1'')
                       \<lparr>parent := Some ''x'', p_accession := Some ''acc_x'',
                        parent_rank := Some ''3''\<rparr>)
         \<and> map_of st' ''x'' = Some (example_entry {''5'', ''6'', ''7''} ''acc_x'' ''3''))"
proof -
  let ?x = "example_entry {''5'', ''6'', ''7''} ''acc_x'' ''3''"
  let ?y = "example_entry {''5'', ''6'', ''7''} ''acc_y'' ''1''"
  have x: "map_of scenario_equal_sets ''x'' = Some ?x" by (simp add: scenario_equal_sets_def)
  have y: "map_of scenario_equal_sets ''y'' = Some ?y" by (simp add: scenario_equal_sets_def)
  have s: "skip_pair ''x'' ?x ''y'' ?y = Inr False" by code_simp
  have c: "cell_ids ?x = cell_ids ?y" by (simp add: example_entry_def)
  have rx: "py_int (rank ?x) = Inr 3" by code_simp
  have ry: "py_int (rank ?y) = Inr 1" by code_simp
  have ne: "(3::int) \<noteq> 1" by simp
  from equal_sets_higher_rank_becomes_parent [OF x y s c rx ry ne]
  have "\<exists>st'. hierarchy_step (''x'', ''y'') scenario_equal_sets = Inr st'
         \<and> map_of st' ''y''
             = Some (?y\<lparr>parent := Some ''x'', p_accession := Some (accession ?x),
                        parent_rank := Some (rank ?x)\<rparr>)
         \<and> map_of st' ''x'' = Some ?x"
    by simp
  then have "\<exists>st'. hierarchy_step (''x'', ''y'') scenario_equal_sets = Inr st'
         \<and> map_of st' ''y''
             = Some (?y\<lparr>parent := Some ''x'', p_accession := Some ''acc_x'',
                        parent_rank := Some ''3''\<rparr>)
         \<and> map_of st' ''x'' = Some ?x"
    by (simp add: example_entry_def)
  with x y s rx ry show ?thesis by blast
qed

text \<open>
  For the two labels on \<open>{5, 6, 7}\<close> at ranks 3 and 1, the whole run leaves the
  rank-3 label \<open>x\<close> without a parent and makes it the parent of the rank-1 label
  \<open>y\<close>: the parent fields of the higher-rank entry do not point at the lower-rank one.
\<close>

theorem equal_sets_lower_rank_is_child:
  "py_int (rank (example_entry {''5'', ''6'', ''7''} ''acc_x'' ''3'')) = Inr 3
   \<and> py_int (rank (example_entry {''5'', ''6'', ''7''} ''acc_y'' ''1'')) = Inr 1
   \<and> add_parent_cell_hierarchy scenario_equal_sets =
       Inr [(''x'', example_entry {''5'', ''6'', ''7''} ''acc_x'' ''3''),
            (''y'', (example_entry {''5'', ''6'', ''7''} ''acc_y'' ''1'')
                      \<lparr>parent := Some ''x'', p_accession := Some ''acc_x'',
                       parent_rank := Some ''3''\<rparr>)]
   \<and> parent (example_entry {''5'', ''6'', ''7''} ''acc_x'' ''3'') = None"
  by code_simp

text \<open>
  The nested scenario: \<open>c1\<close> ends with parent \<open>s1\<close>, whose cell-id set is a
  strict superset.
\<close>

theorem parent_is_superset_or_higher_rank_witness:
  "add_parent_cell_hierarchy scenario_nested =
     Inr [(''c1'', update_parent_info (example_entry {''1'', ''2''} ''acc_c1'' ''0'') ''s1''
                     (example_entry {''1'', ''2'', ''3''} ''acc_s1'' ''1'')),
          (''s1'', update_parent_info (example_entry {''1'', ''2'', ''3''} ''acc_s1'' ''1'') ''cl1''
                     (example_entry {''1'', ''2'', ''3'', ''4''} ''acc_cl1'' ''2'')),
          (''cl1'', example_entry {''1'', ''2'', ''3'', ''4''} ''acc_cl1'' ''2'')]
   \<and> unparented scenario_nested
   \<and> (\<exists>eb. map_of [(''c1'', update_parent_info (example_entry {''1'', ''2''} ''acc_c1'' ''0'') ''s1''
                     (example_entry {''1'', ''2'', ''3''} ''acc_s1'' ''1'')),
          (''s1'', update_parent_info (example_entry {''1'', ''2'', ''3''} ''acc_s1'' ''1'') ''cl1''
                     (example_entry {''1'', ''2'', ''3'', ''4''} ''acc_cl1'' ''2'')),
          (''cl1'', example_entry {''1'', ''2'', ''3'', ''4''} ''acc_cl1'' ''2'')] ''s1'' = Some eb
         \<and> (cell_ids (example_entry {''1'', ''2''} ''acc_c1'' ''0'') \<subset> cell_ids eb
              \<or> (cell_ids (example_entry {''1'', ''2''} ''acc_c1'' ''0'') = cell_ids eb
                   \<and> (\<exists>ra rb. py_int (rank (example_entry {''1'', ''2''} ''acc_c1'' ''0'')) = Inr ra
                          \<and> py_int (rank eb) = Inr rb \<and> ra < rb))))"
proof -
  let ?c1 = "update_parent_info (example_entry {''1'', ''2''} ''acc_c1'' ''0'') ''s1''
                     (example_entry {''1'', ''2'', ''3''} ''acc_s1'' ''1'')"
  let ?r = "[(''c1'', ?c1),
          (''s1'', update_parent_info (example_entry {''1'', ''2'', ''3''} ''acc_s1'' ''1'') ''cl1''
                     (example_entry {''1'', ''2'', ''3'', ''4''} ''acc_cl1'' ''2'')),
          (''cl1'', example_entry {''1'', ''2'', ''3'', ''4''} ''acc_cl1'' ''2'')]"
  have run: "add_parent_cell_hierarchy scenario_nested = Inr ?r" by code_simp
  have un: "unparented scenario_nested" by code_simp
  have a: "map_of ?r ''c1'' = Some ?c1" by simp
  have p: "parent ?c1 = Some ''s1''" by simp
  from parent_is_superset_or_higher_rank [OF run un a p] run un show ?thesis by simp
qed

text \<open>
  Two labels on the same cells at ranks 0 and 2: the rank-0 entry ends with the rank-2
  entry as its parent. Its cell-id set is not a strict subset of the parent's, and the
  parent's rank is not below its own.
\<close>

theorem parent_of_equal_set_has_higher_rank:
  "add_parent_cell_hierarchy scenario_synonyms =
     Inr [(''T cell'', (example_entry {''1'', ''2''} ''acc_t'' ''0'')
                         \<lparr>parent := Some ''lymphocyte'', p_accession := Some ''acc_l'',
                          parent_rank := Some ''2''\<rparr>),
          (''lymphocyte'', example_entry {''1'', ''2''} ''acc_l'' ''2'')]
   \<and> \<not> cell_ids (example_entry {''1'', ''2''} ''acc_t'' ''0'')
         \<subset> cell_ids (example_entry {''1'', ''2''} ''acc_l'' ''2'')
   \<and> py_int (rank (example_entry {''1'', ''2''} ''acc_t'' ''0'')) = Inr 0
   \<and> py_int (rank (example_entry {''1'', ''2''} ''acc_l'' ''2'')) = Inr 2
   \<and> \<not> (2::int) < 0"
  by code_simp

text \<open>The nested scenario once more: its parent links are well-founded.\<close>

theorem parent_links_acyclic_witness:
  "add_parent_cell_hierarchy scenario_nested =
     Inr [(''c1'', update_parent_info (example_entry {''1'', ''2''} ''acc_c1'' ''0'') ''s1''
                     (example_entry {''1'', ''2'', ''3''} ''acc_s1'' ''1'')),
          (''s1'', update_parent_info (example_entry {''1'', ''2'', ''3''} ''acc_s1'' ''1'') ''cl1''
                     (example_entry {''1'', ''2'', ''3'', ''4''} ''acc_cl1'' ''2'')),
          (''cl1'', example_entry {''1'', ''2'', ''3'', ''4''} ''acc_cl1'' ''2'')]
   \<and> unparented scenario_nested
   \<and> wf ((parent_links
            [(''c1'', update_parent_info (example_entry {''1'', ''2''} ''acc_c1'' ''0'') ''s1''
                     (example_entry {''1'', ''2'', ''3''} ''acc_s1'' ''1'')),
          (''s1'', update_parent_info (example_entry {''1'', ''2'', ''3''} ''acc_s1'' ''1'') ''cl1''
                     (example_entry {''1'', ''2'', ''3'', ''4''} ''acc_cl1'' ''2'')),
          (''cl1'', example_entry {''1'', ''2'', ''3'', ''4''} ''acc_cl1'' ''2'')])\<inverse>)
   \<and> (''c1'', ''c1'') \<notin> (parent_links
            [(''c1'', update_parent_info (example_entry {''1'', ''2''} ''acc_c1'' ''0'') ''s1''
                     (example_entry {''1'', ''2'', ''3''} ''acc_s1'' ''1'')),
          (''s1'', update_parent_info (example_entry {''1'', ''2'', ''3''} ''acc_s1'' ''1'') ''cl1''
                     (example_entry {''1'', ''2'', ''3'', ''4''} ''acc_cl1'' ''2'')),
          (''cl1'', example_entry {''1'', ''2'', ''3'', ''4''} ''acc_cl1'' ''2'')])\<^sup>+"
proof -
  let ?r = "[(''c1'', update_parent_info (example_entry {''1'', ''2''} ''acc_c1'' ''0'') ''s1''
                     (example_entry {''1'', ''2'', ''3''} ''acc_s1'' ''1'')),
          (''s1'', update_parent_info (example_entry {''1'', ''2'', ''3''} ''acc_s1'' ''1'') ''cl1''
                     (example_entry {''1'', ''2'', ''3'', ''4''} ''acc_cl1'' ''2'')),
          (''cl1'', example_entry {''1'', ''2'', ''3'', ''4''} ''acc_cl1'' ''2'')]"
  have run: "add_parent_cell_hierarchy scenario_nested = Inr ?r" by code_simp
  have un: "unparented scenario_nested" by code_simp
  from parent_links_acyclic [OF run un] run un show ?thesis by blast
qed

text \<open>
  The same three entries held in two orders. \<open>A\<close> lies in \<open>B\<close> and in \<open>C\<close>,
  both of rank 1, and ends with the one the dict holds first as its parent.
\<close>

theorem parent_depends_on_order:
  "set (scenario_two_supersets [''A'', ''B'', ''C''])
     = set (scenario_two_supersets [''A'', ''C'', ''B''])
   \<and> add_parent_cell_hierarchy (scenario_two_supersets [''A'', ''B'', ''C'']) =
       Inr [(''A'', (example_entry {''1''} ''acc_A'' ''0'')
                      \<lparr>parent := Some ''B'', p_accession := Some ''acc_B'',
                       parent_rank := Some ''1''\<rparr>),
            (''B'', example_entry {''1'', ''2''} ''acc_B'' ''1''),
            (''C'', example_entry {''1'', ''3''} ''acc_C'' ''1'')]
   \<and> add_parent_cell_hierarchy (scenario_two_supersets [''A'', ''C'', ''B'']) =
       Inr [(''A'', (example_entry {''1''} ''acc_A'' ''0'')
                      \<lparr>parent := Some ''C'', p_accession := Some ''acc_C'',
                       parent_rank := Some ''1''\<rparr>),
            (''C'', example_entry {''1'', ''3''} ''acc_C'' ''1''),
            (''B'', example_entry {''1'', ''2''} ''acc_B'' ''1'')]"
proof -
  have "set (scenario_two_supersets [''A'', ''B'', ''C''])
     = set (scenario_two_supersets [''A'', ''C'', ''B''])"
    by (simp add: scenario_two_supersets_def insert_commute)
  moreover have "add_parent_cell_hierarchy (scenario_two_supersets [''A'', ''B'', ''C'']) =
       Inr [(''A'', (example_entry {''1''} ''acc_A'' ''0'')
                      \<lparr>parent := Some ''B'', p_accession := Some ''acc_B'',
                       parent_rank := Some ''1''\<rparr>),
            (''B'', example_entry {''1'', ''2''} ''acc_B'' ''1''),
            (''C'', example_entry {''1'', ''3''} ''acc_C'' ''1'')]"
    by code_simp
  moreover have "add_parent_cell_hierarchy (scenario_two_supersets [''A'', ''C'', ''B'']) =
       Inr [(''A'', (example_entry {''1''} ''acc_A'' ''0'')
                      \<lparr>parent := Some ''C'', p_accession := Some ''acc_C'',
                       parent_rank := Some ''1''\<rparr>),
            (''C'', example_entry {''1'', ''3''} ''acc_C'' ''1''),
            (''B'', example_entry {''1'', ''2''} ''acc_B'' ''1'')]"
    by code_simp
  ultimately show ?thesis by blast
qed

text \<open>In both orders it is \<open>A\<close>, and only \<open>A\<close>, that ends with a parent.\<close>

theorem parented_order_independent_witness:
  "distinct (map fst (scenario_two_supersets [''A'', ''B'', ''C'']))
   \<and> distinct (map fst (scenario_two_supersets [''A'', ''C'', ''B'']))
   \<and> set (scenario_two_supersets [''A'', ''B'', ''C''])
       = set (scenario_two_supersets [''A'', ''C'', ''B''])
   \<and> unparented (scenario_two_supersets [''A'', ''B'', ''C''])
   \<and> add_parent_cell_hierarchy (scenario_two_supersets [''A'', ''B'', ''C'']) =
       Inr [(''A'', (example_entry {''1''} ''acc_A'' ''0'')
                      \<lparr>parent := Some ''B'', p_accession := Some ''acc_B'',
                       parent_rank := Some ''1''\<rparr>),
            (''B'', example_entry {''1'', ''2''} ''acc_B'' ''1''),
            (''C'', example_entry {''1'', ''3''} ''acc_C'' ''1'')]
   \<and> add_parent_cell_hierarchy (scenario_two_supersets [''A'', ''C'', ''B'']) =
       Inr [(''A'', (example_entry {''1''} ''acc_A'' ''0'')
                      \<lparr>parent := Some ''C'', p_accession := Some ''acc_C'',
                       parent_rank := Some ''1''\<rparr>),
            (''C'', example_entry {''1'', ''3''} ''acc_C'' ''1''),
            (''B'', example_entry {''1'', ''2''} ''acc_B'' ''1'')]
   \<and> set (parented
            [(''A'', (example_entry {''1''} ''acc_A'' ''0'')
                      \<lparr>parent := Some ''B'', p_accession := Some ''acc_B'',
                       parent_rank := Some ''1''\<rparr>),
            (''B'', example_entry {''1'', ''2''} ''acc_B'' ''1''),
            (''C'', example_entry {''1'', ''3''} ''acc_C'' ''1'')])
       = set (parented
            [(''A'', (example_entry {''1''} ''acc_A'' ''0'')
                      \<lparr>parent := Some ''C'', p_accession := Some ''acc_C'',
                       parent_rank := Some ''1''\<rparr>),
            (''C'', example_entry {''1'', ''3''} ''acc_C'' ''1''),
            (''B'', example_entry {''1'', ''2''} ''acc_B'' ''1'')])"
proof -
  let ?l1 = "scenario_two_supersets [''A'', ''B'', ''C'']"
  let ?l2 = "scenario_two_supersets [''A'', ''C'', ''B'']"
  let ?r1 = "[(''A'', (example_entry {''1''} ''acc_A'' ''0'')
                      \<lparr>parent := Some ''B'', p_accession := Some ''acc_B'',
                       parent_rank := Some ''1''\<rparr>),
            (''B'', example_entry {''1'', ''2''} ''acc_B'' ''1''),
            (''C'', example_entry {''1'', ''3''} ''acc_C'' ''1'')]"
  let ?r2 = "[(''A'', (example_entry {''1''} ''acc_A'' ''0'')
                      \<lparr>parent := Some ''C'', p_accession := Some ''acc_C'',
                       parent_rank := Some ''1''\<rparr>),
            (''C'', example_entry {''1'', ''3''} ''acc_C'' ''1''),
            (''B'', example_entry {''1'', ''2''} ''acc_B'' ''1'')]"
  have d1: "distinct (map fst ?l1)" by code_simp
  have d2: "distinct (map fst ?l2)" by code_simp
  have s: "set ?l1 = set ?l2" by (simp add: scenario_two_supersets_def insert_commute)
  have un: "unparented ?l1" by code_simp
  have r1: "add_parent_cell_hierarchy ?l1 = Inr ?r1" by code_simp
  have r2: "add_parent_cell_hierarchy ?l2 = Inr ?r2" by code_simp
  from parented_order_independent [OF d1 d2 s un r1 r2] d1 d2 s un r1 r2
  show ?thesis by blast
qed

text \<open>
  Claim C5, on the code. \<open>A\<close> has the parent \<open>P\<close> with recorded rank \<open>9\<close> when the
  pair \<open>(A, B)\<close> comes up, and \<open>B\<close> has rank \<open>10\<close>. The guard compares the two
  \<^verbatim>\<open>str\<close> values, \<open>''9'' \<le> ''10''\<close> is false for strings, the pair is not skipped
  and \<open>B\<close> replaces the closer parent \<open>P\<close>. The branch for equal sets converts
  both ranks with \<^verbatim>\<open>int\<close> before comparing them; the guard does not.
\<close>

theorem string_rank_guard_lets_coarser_parent_in:
  "py_str 9 = ''9'' \<and> py_str 10 = ''10''
   \<and> py_int ''9'' = Inr 9 \<and> py_int ''10'' = Inr 10
   \<and> str_le ''9'' ''10'' = False
   \<and> hierarchy_loop [(''A'', ''A''), (''A'', ''P'')] scenario_many_ranks =
       Inr [(''A'', (example_entry {''1''} ''acc_A'' ''0'')
                      \<lparr>parent := Some ''P'', p_accession := Some ''acc_P'',
                       parent_rank := Some ''9''\<rparr>),
            (''P'', example_entry {''1'', ''2''} ''acc_P'' ''9''),
            (''B'', example_entry {''1'', ''2'', ''3''} ''acc_B'' ''10'')]
   \<and> hierarchy_step (''A'', ''B'')
         [(''A'', (example_entry {''1''} ''acc_A'' ''0'')
                      \<lparr>parent := Some ''P'', p_accession := Some ''acc_P'',
                       parent_rank := Some ''9''\<rparr>),
            (''P'', example_entry {''1'', ''2''} ''acc_P'' ''9''),
            (''B'', example_entry {''1'', ''2'', ''3''} ''acc_B'' ''10'')] =
       Inr [(''A'', (example_entry {''1''} ''acc_A'' ''0'')
                      \<lparr>parent := Some ''B'', p_accession := Some ''acc_B'',
                       parent_rank := Some ''10''\<rparr>),
            (''P'', example_entry {''1'', ''2''} ''acc_P'' ''9''),
            (''B'', example_entry {''1'', ''2'', ''3''} ''acc_B'' ''10'')]
   \<and> add_parent_cell_hierarchy scenario_many_ranks =
       Inr [(''A'', (example_entry {''1''} ''acc_A'' ''0'')
                      \<lparr>parent := Some ''B'', p_accession := Some ''acc_B'',
                       parent_rank := Some ''10''\<rparr>),
            (''P'', (example_entry {''1'', ''2''} ''acc_P'' ''9'')
                      \<lparr>parent := Some ''B'', p_accession := Some ''acc_B'',
                       parent_rank := Some ''10''\<rparr>),
            (''B'', example_entry {''1'', ''2'', ''3''} ''acc_B'' ''10'')]"
  by code_simp

text \<open>
  Claim C6, on the code. \<open>A\<close> and \<open>B\<close> have the same cells and the same rank. When
  their common superset \<open>C\<close> (of rank not above theirs) comes first in the dict, each of
  them has \<open>C\<close> as parent before the pair \<open>(A, B)\<close> comes up, the guard skips the
  pair in both directions and the run returns without the error. With \<open>C\<close> last, the
  same entries raise it.
\<close>

theorem same_rank_same_cells_not_reported:
  "add_parent_cell_hierarchy scenario_superset_first =
     Inr [(''C'', example_entry {''1'', ''2'', ''3''} ''acc_C'' ''1''),
          (''A'', (example_entry {''1'', ''2''} ''acc_A'' ''1'')
                    \<lparr>parent := Some ''C'', p_accession := Some ''acc_C'',
                     parent_rank := Some ''1''\<rparr>),
          (''B'', (example_entry {''1'', ''2''} ''acc_B'' ''1'')
                    \<lparr>parent := Some ''C'', p_accession := Some ''acc_C'',
                     parent_rank := Some ''1''\<rparr>)]
   \<and> add_parent_cell_hierarchy scenario_superset_last =
       Inl (ValueError (''A and B cell labels have the same cell_ids. ''
                          @ ''Cell_ids can'' @ [CHR 0x27] @ ''t be identical at the same rank.''))"
  by code_simp

text \<open>
  The loop never raises \<open>KeyError\<close>: its pairs are keys of the dict, and no step adds
  or removes a key.
\<close>

lemma py_int_error: "py_int s = Inl e \<Longrightarrow> e = invalid_literal s"
  by (auto simp: py_int_def split: list.splits if_splits option.splits)

lemma hierarchy_step_no_KeyError:
  assumes "key \<in> fst ` set st" and "inner_key \<in> fst ` set st"
  shows "hierarchy_step (key, inner_key) st \<noteq> Inl (KeyError k)"
proof -
  from assms obtain "value" inner_value
    where v: "map_of st key = Some value" "map_of st inner_key = Some inner_value"
    by (metis domD dom_map_of_conv_image_fst)
  have "skip_pair key value inner_key inner_value \<noteq> Inl (KeyError k)"
    by (auto simp: skip_pair_def split: option.splits)
  moreover have "resolve_equal key value inner_key inner_value st \<noteq> Inl (KeyError k)"
    by (auto simp: resolve_equal_def invalid_literal_def split: sum.splits dest!: py_int_error)
  ultimately show ?thesis using v
    by (auto simp: hierarchy_step_def split: sum.splits bool.splits)
qed

lemma hierarchy_loop_no_KeyError:
  assumes "\<forall>p \<in> set ps. fst p \<in> fst ` set st \<and> snd p \<in> fst ` set st"
  shows "hierarchy_loop ps st \<noteq> Inl (KeyError k)"
  using assms
proof (induction ps arbitrary: st)
  case Nil
  then show ?case by simp
next
  case (Cons p ps)
  obtain a b where p: "p = (a, b)" by (cases p)
  with Cons.prems have ab: "a \<in> fst ` set st" "b \<in> fst ` set st" by auto
  show ?case
  proof (cases "hierarchy_step p st")
    case (Inl e)
    with hierarchy_step_no_KeyError [OF ab, of k] p show ?thesis by auto
  next
    case (Inr st')
    from hierarchy_step_keys [OF Inr] have "fst ` set st' = fst ` set st"
      by (metis set_map)
    with Cons.prems have "\<forall>p \<in> set ps. fst p \<in> fst ` set st' \<and> snd p \<in> fst ` set st'"
      by simp
    from Cons.IH [OF this] Inr show ?thesis by simp
  qed
qed

lemma add_parent_cell_hierarchy_no_KeyError:
  "add_parent_cell_hierarchy lk \<noteq> Inl (KeyError k)"
  unfolding add_parent_cell_hierarchy_def
  by (rule hierarchy_loop_no_KeyError) auto

text \<open>
  Two entries with the same cells and the same rank: the pair raises when the guard does
  not skip it, and in a lookup that is returned neither of the two is the parent of the
  other.
\<close>

lemma same_rank_pair_raises:
  assumes "map_of st key = Some value" and "map_of st inner_key = Some inner_value"
    and "skip_pair key value inner_key inner_value = Inr False"
    and "cell_ids value = cell_ids inner_value"
    and "py_int (rank value) = Inr r" and "py_int (rank inner_value) = Inr r"
  shows "hierarchy_step (key, inner_key) st
           = Inl (ValueError (same_cell_ids_message key inner_key))"
  using assms by (simp add: hierarchy_step_def resolve_equal_def)

lemma same_rank_never_parent:
  assumes "add_parent_cell_hierarchy lk = Inr r" and "unparented lk"
    and "map_of r a = Some ea" and "map_of r b = Some eb"
    and "cell_ids ea = cell_ids eb"
    and "py_int (rank ea) = Inr n" and "py_int (rank eb) = Inr n"
  shows "parent ea \<noteq> Some b"
proof
  assume "parent ea = Some b"
  with add_parent_cell_hierarchy_parent_ok [OF assms(1,2)] assms(3,4)
  have "candidate ea eb" unfolding parent_ok_def by fastforce
  with assms(5,6,7) show False by (simp add: candidate_def rank_lt_def)
qed

text \<open>
  The assignment to \<open>inner_value\<close> in the branch for equal sets is not behind the
  guard. With the same two cells under a cluster, a subclass and a class label, held in
  this order, the pair \<open>(class, cluster)\<close> replaces the parent \<open>subclass\<close> of
  \<open>cluster\<close> by \<open>class\<close>, of higher rank.
\<close>

lemma equal_chain_run:
  "add_parent_cell_hierarchy scenario_equal_chain =
     Inr [(''cluster'', (example_entry {''1'', ''2''} ''acc_cluster'' ''0'')
                          \<lparr>parent := Some ''class'', p_accession := Some ''acc_class'',
                           parent_rank := Some ''2''\<rparr>),
          (''subclass'', (example_entry {''1'', ''2''} ''acc_subclass'' ''1'')
                           \<lparr>parent := Some ''class'', p_accession := Some ''acc_class'',
                            parent_rank := Some ''2''\<rparr>),
          (''class'', example_entry {''1'', ''2''} ''acc_class'' ''2'')]"
  by code_simp

section \<open>Properties of the collected cell sets\<close>

lemma lookup_label_Inr:
  assumes "lookup_label gen obs k v x st = Inr st'"
  shows "\<exists>term_id term c.
           get_cl_annotations_from_anndata obs k x = Inr (term_id, term)
         \<and> get_cell_ids obs k x = Inr c
         \<and> st' = AList.update x
                   (case map_of st x of
                      Some e \<Rightarrow> e\<lparr>cell_ids := cell_ids e \<union> set c\<rparr>
                    | None \<Rightarrow> new_entry c (gen c k) (labelset_rank v) term_id term) st"
  using assms
  by (auto simp: lookup_label_def Let_def split: sum.splits option.splits)

lemma first_entry_cells: "first_entry gen obs k v l = Some e \<Longrightarrow> cell_ids e = cells obs k l"
  by (auto simp: first_entry_def cells_def new_entry_def split: sum.splits)

lemma lookup_label_same:
  assumes "lookup_label gen obs k v l st = Inr st'"
  shows "map_of st' l =
           (case map_of st l of
              Some e \<Rightarrow> Some (e\<lparr>cell_ids := cell_ids e \<union> cells obs k l\<rparr>)
            | None \<Rightarrow> first_entry gen obs k v l)"
  using lookup_label_Inr [OF assms]
  by (auto simp: update_conv' cells_def first_entry_def split: option.splits)

lemma lookup_label_other:
  assumes "lookup_label gen obs k v x st = Inr st'" and "x \<noteq> l"
  shows "map_of st' l = map_of st l"
  using lookup_label_Inr [OF assms(1)] assms(2)
  by (auto simp: update_conv')

lemma lookup_label_first_ok:
  assumes "lookup_label gen obs k v l st = Inr st'"
  shows "\<exists>e. first_entry gen obs k v l = Some e"
  using lookup_label_Inr [OF assms] by (auto simp: first_entry_def)

lemma lookup_members_map_of:
  assumes "lookup_members gen obs k v ms st = Inr st'"
  shows "map_of st' l =
           (if l \<in> set ms then
              (case map_of st l of
                 Some e \<Rightarrow> Some (e\<lparr>cell_ids := cell_ids e \<union> cells obs k l\<rparr>)
               | None \<Rightarrow> first_entry gen obs k v l)
            else map_of st l)"
  using assms
proof (induction ms arbitrary: st)
  case Nil
  then show ?case by simp
next
  case (Cons x ms)
  from Cons.prems obtain st1 where s: "lookup_label gen obs k v x st = Inr st1"
    and r: "lookup_members gen obs k v ms st1 = Inr st'"
    by (auto split: sum.splits)
  note ih = Cons.IH [OF r]
  show ?case
  proof (cases "x = l")
    case False
    with lookup_label_other [OF s] ih show ?thesis by auto
  next
    case True
    note same = lookup_label_same [OF s [unfolded True]]
    show ?thesis
    proof (cases "map_of st l")
      case (Some e)
      with same ih True show ?thesis by (auto simp: Un_assoc)
    next
      case None
      from lookup_label_first_ok [OF s [unfolded True]] obtain fe
        where fe: "first_entry gen obs k v l = Some fe" by blast
      from first_entry_cells [OF fe] have "fe\<lparr>cell_ids := cell_ids fe \<union> cells obs k l\<rparr> = fe"
        by simp
      with None same ih True fe show ?thesis by auto
    qed
  qed
qed

lemma all_cells_Nil [simp]: "all_cells obs [] l = {}"
  by (simp add: all_cells_def occurrences_def)

lemma all_cells_Cons:
  "all_cells obs ((k, v) # ld) l
     = (if l \<in> set (members v) then cells obs k l \<union> all_cells obs ld l else all_cells obs ld l)"
  by (simp add: all_cells_def occurrences_def)

lemma occurrences_Cons:
  "occurrences ((k, v) # ld) l
     = (if l \<in> set (members v) then (k, v) # occurrences ld l else occurrences ld l)"
  by (simp add: occurrences_def)

lemma lookup_members_first_ok:
  "lookup_members gen obs k v ms st = Inr st' \<Longrightarrow> l \<in> set ms \<Longrightarrow>
   \<exists>fe. first_entry gen obs k v l = Some fe"
proof (induction ms arbitrary: st)
  case Nil
  then show ?case by simp
next
  case (Cons x ms)
  from Cons.prems(1) obtain st1 where s: "lookup_label gen obs k v x st = Inr st1"
    and r: "lookup_members gen obs k v ms st1 = Inr st'"
    by (auto split: sum.splits)
  show ?case
  proof (cases "x = l")
    case True
    with s show ?thesis using lookup_label_first_ok by blast
  next
    case False
    with Cons.prems(2) have "l \<in> set ms" by simp
    with Cons.IH [OF r] show ?thesis by blast
  qed
qed

lemma merged_Cons_notin:
  assumes "l \<notin> set (members v)"
  shows "merged gen obs ((k, v) # ld) l s = merged gen obs ld l s"
proof -
  from assms have a: "all_cells obs ((k, v) # ld) l = all_cells obs ld l"
    and b: "occurrences ((k, v) # ld) l = occurrences ld l"
    by (simp_all add: all_cells_Cons occurrences_Cons)
  show ?thesis unfolding merged_def a b by (rule refl)
qed

lemma merged_Cons_Some:
  "l \<in> set (members v) \<Longrightarrow>
   merged gen obs ((k, v) # ld) l (Some e)
     = merged gen obs ld l (Some (e\<lparr>cell_ids := cell_ids e \<union> cells obs k l\<rparr>))"
  by (simp add: merged_def all_cells_Cons Un_assoc)

lemma merged_Cons_None:
  "l \<in> set (members v) \<Longrightarrow> first_entry gen obs k v l = Some fe \<Longrightarrow>
   merged gen obs ((k, v) # ld) l None = merged gen obs ld l (Some fe)"
  using first_entry_cells [of gen obs k v l fe]
  by (simp add: merged_def all_cells_Cons occurrences_Cons Un_assoc [symmetric])

lemma lookup_labelsets_map_of:
  assumes "lookup_labelsets gen obs ld st = Inr st'"
  shows "map_of st' l = merged gen obs ld l (map_of st l)"
  using assms
proof (induction ld arbitrary: st)
  case Nil
  then show ?case by (simp add: merged_def occurrences_def split: option.splits)
next
  case (Cons kv ld)
  obtain k v where kv: "kv = (k, v)" by (cases kv)
  from Cons.prems kv obtain st1 where m: "lookup_members gen obs k v (members v) st = Inr st1"
    and r: "lookup_labelsets gen obs ld st1 = Inr st'"
    by (auto split: sum.splits)
  note ih = Cons.IH [OF r]
  note mm = lookup_members_map_of [OF m, of l]
  show ?case
  proof (cases "l \<in> set (members v)")
    case False
    with mm ih kv show ?thesis by (simp add: merged_Cons_notin)
  next
    case True
    from lookup_members_first_ok [OF m True] obtain fe
      where fe: "first_entry gen obs k v l = Some fe" by blast
    show ?thesis
    proof (cases "map_of st l")
      case (Some e)
      with True mm ih kv show ?thesis by (simp add: merged_Cons_Some)
    next
      case None
      with True mm fe have "map_of st1 l = Some fe" by simp
      with ih None kv merged_Cons_None [OF True fe] show ?thesis by simp
    qed
  qed
qed

lemma lookup_labelsets_first_ok:
  "lookup_labelsets gen obs ld st = Inr st' \<Longrightarrow> (k, v) \<in> set ld \<Longrightarrow> l \<in> set (members v)
   \<Longrightarrow> \<exists>fe. first_entry gen obs k v l = Some fe"
proof (induction ld arbitrary: st)
  case Nil
  then show ?case by simp
next
  case (Cons kv ld)
  obtain k1 v1 where kv: "kv = (k1, v1)" by (cases kv)
  from Cons.prems(1) kv obtain st1
    where m: "lookup_members gen obs k1 v1 (members v1) st = Inr st1"
    and r: "lookup_labelsets gen obs ld st1 = Inr st'"
    by (auto split: sum.splits)
  show ?case
  proof (cases "k = k1 \<and> v = v1")
    case True
    with m Cons.prems(3) show ?thesis using lookup_members_first_ok by blast
  next
    case False
    with Cons.prems(2) kv have "(k, v) \<in> set ld" by auto
    from Cons.IH [OF r this Cons.prems(3)] show ?thesis .
  qed
qed

lemma lookup_label_distinct:
  "lookup_label gen obs k v x st = Inr st' \<Longrightarrow> distinct (map fst st) \<Longrightarrow> distinct (map fst st')"
  using lookup_label_Inr [of gen obs k v x st st'] by (auto simp: distinct_update)

lemma lookup_members_distinct:
  "lookup_members gen obs k v ms st = Inr st' \<Longrightarrow> distinct (map fst st)
   \<Longrightarrow> distinct (map fst st')"
proof (induction ms arbitrary: st)
  case Nil
  then show ?case by simp
next
  case (Cons x ms)
  from Cons.prems(1) obtain st1 where s: "lookup_label gen obs k v x st = Inr st1"
    and r: "lookup_members gen obs k v ms st1 = Inr st'"
    by (auto split: sum.splits)
  from lookup_label_distinct [OF s Cons.prems(2)] Cons.IH [OF r] show ?case by simp
qed

lemma lookup_labelsets_distinct:
  "lookup_labelsets gen obs ld st = Inr st' \<Longrightarrow> distinct (map fst st)
   \<Longrightarrow> distinct (map fst st')"
proof (induction ld arbitrary: st)
  case Nil
  then show ?case by simp
next
  case (Cons kv ld)
  obtain k v where kv: "kv = (k, v)" by (cases kv)
  from Cons.prems(1) kv obtain st1 where m: "lookup_members gen obs k v (members v) st = Inr st1"
    and r: "lookup_labelsets gen obs ld st1 = Inr st'"
    by (auto split: sum.splits)
  from lookup_members_distinct [OF m Cons.prems(2)] Cons.IH [OF r] show ?case by simp
qed

lemma find_occurrences:
  "find (\<lambda>(k, v). l \<in> set (members v)) ld = Some (k0, v0) \<Longrightarrow>
   (\<exists>rest. occurrences ld l = (k0, v0) # rest) \<and> (k0, v0) \<in> set ld \<and> l \<in> set (members v0)"
  by (induction ld) (auto simp: occurrences_def split: if_splits)

lemma generate_parent_cell_lookup_entry:
  assumes "generate_parent_cell_lookup gen obs ld = Inr lk"
    and "find (\<lambda>(k, v). l \<in> set (members v)) ld = Some (k0, v0)"
  shows "\<exists>fe. first_entry gen obs k0 v0 l = Some fe
            \<and> map_of lk l = Some (fe\<lparr>cell_ids := cell_ids fe \<union> all_cells obs ld l\<rparr>)"
proof -
  from find_occurrences [OF assms(2)] obtain rest where o: "occurrences ld l = (k0, v0) # rest"
    and i: "(k0, v0) \<in> set ld" "l \<in> set (members v0)"
    by blast
  from assms(1) have run: "lookup_labelsets gen obs ld [] = Inr lk"
    by (simp add: generate_parent_cell_lookup_def)
  from lookup_labelsets_first_ok [OF run i] obtain fe
    where fe: "first_entry gen obs k0 v0 l = Some fe" by blast
  from lookup_labelsets_map_of [OF run, of l] have "map_of lk l = merged gen obs ld l None"
    by simp
  with o fe have "map_of lk l = Some (fe\<lparr>cell_ids := cell_ids fe \<union> all_cells obs ld l\<rparr>)"
    by (simp add: merged_def)
  with fe show ?thesis by blast
qed

lemma all_cells_eq:
  "all_cells obs ld l
     = {c. \<exists>k v cs. (k, v) \<in> set ld \<and> l \<in> set (members v)
             \<and> get_cell_ids obs k l = Inr cs \<and> c \<in> set cs}"
  by (auto simp: all_cells_def occurrences_def cells_def split: sum.splits) blast

lemma first_entry_Some:
  "first_entry gen obs k v l = Some fe \<Longrightarrow>
   \<exists>term_id term c. get_cl_annotations_from_anndata obs k l = Inr (term_id, term)
      \<and> get_cell_ids obs k l = Inr c
      \<and> fe = new_entry c (gen c k) (labelset_rank v) term_id term"
  by (auto simp: first_entry_def split: sum.splits)

lemma first_cells_in_all:
  assumes "find (\<lambda>(k, v). l \<in> set (members v)) ld = Some (k0, v0)"
  shows "cells obs k0 l \<subseteq> all_cells obs ld l"
proof -
  from find_occurrences [OF assms] have "(k0, v0) \<in> set (occurrences ld l)" by auto
  then show ?thesis unfolding all_cells_def by blast
qed

text \<open>
  Claim C3, amended. When \<open>generate_parent_cell_lookup\<close> returns and the label \<open>l\<close>
  occurs under one or more labelsets, the lookup has a single entry for \<open>l\<close>; its
  cell-id set is the union of the cell ids \<open>get_cell_ids\<close> finds for \<open>l\<close> under each
  of these labelsets, and its rank is the rank of the first labelset processed that has
  \<open>l\<close>.
\<close>

theorem merged_entry_union_and_first_rank:
  assumes "generate_parent_cell_lookup gen obs ld = Inr lk"
    and "find (\<lambda>(k, v). l \<in> set (members v)) ld = Some (k0, v0)"
  shows "distinct (map fst lk)
       \<and> (\<exists>e. map_of lk l = Some e
             \<and> cell_ids e = {c. \<exists>k v cs. (k, v) \<in> set ld \<and> l \<in> set (members v)
                                   \<and> get_cell_ids obs k l = Inr cs \<and> c \<in> set cs}
             \<and> rank e = labelset_rank v0)"
proof -
  from assms(1) have "lookup_labelsets gen obs ld [] = Inr lk"
    by (simp add: generate_parent_cell_lookup_def)
  then have d: "distinct (map fst lk)" using lookup_labelsets_distinct by fastforce
  from generate_parent_cell_lookup_entry [OF assms] obtain fe
    where fe: "first_entry gen obs k0 v0 l = Some fe"
    and e: "map_of lk l = Some (fe\<lparr>cell_ids := cell_ids fe \<union> all_cells obs ld l\<rparr>)"
    by blast
  from first_entry_cells [OF fe] first_cells_in_all [OF assms(2), of obs]
  have "cell_ids fe \<union> all_cells obs ld l = all_cells obs ld l" by auto
  moreover from first_entry_Some [OF fe] have "rank fe = labelset_rank v0"
    by (auto simp: new_entry_def)
  ultimately have "cell_ids (fe\<lparr>cell_ids := cell_ids fe \<union> all_cells obs ld l\<rparr>)
        = {c. \<exists>k v cs. (k, v) \<in> set ld \<and> l \<in> set (members v)
                 \<and> get_cell_ids obs k l = Inr cs \<and> c \<in> set cs}"
    and "rank (fe\<lparr>cell_ids := cell_ids fe \<union> all_cells obs ld l\<rparr>) = labelset_rank v0"
    by (simp_all add: all_cells_eq)
  with d e show ?thesis by blast
qed

text \<open>
  Claim C10. The entry stored for a label \<open>l\<close> is the entry written when \<open>l\<close> was
  first met, under the labelset \<open>k0\<close>, with nothing but \<open>cell_ids\<close> changed (to the
  union over all labelsets having \<open>l\<close>): accession, rank and the two ontology fields
  are those computed for \<open>k0\<close>, and the accession is
  \<open>generate_accession_id\<close> of the cell ids found under \<open>k0\<close> alone.
\<close>

theorem merge_keeps_first_fields:
  assumes "generate_parent_cell_lookup gen obs ld = Inr lk"
    and "find (\<lambda>(k, v). l \<in> set (members v)) ld = Some (k0, v0)"
  shows "\<exists>term_id term c0.
           get_cl_annotations_from_anndata obs k0 l = Inr (term_id, term)
         \<and> get_cell_ids obs k0 l = Inr c0
         \<and> map_of lk l
             = Some ((new_entry c0 (gen c0 k0) (labelset_rank v0) term_id term)
                       \<lparr>cell_ids := all_cells obs ld l\<rparr>)"
proof -
  from generate_parent_cell_lookup_entry [OF assms] obtain fe
    where fe: "first_entry gen obs k0 v0 l = Some fe"
    and e: "map_of lk l = Some (fe\<lparr>cell_ids := cell_ids fe \<union> all_cells obs ld l\<rparr>)"
    by blast
  from first_entry_cells [OF fe] first_cells_in_all [OF assms(2), of obs]
  have "cell_ids fe \<union> all_cells obs ld l = all_cells obs ld l" by auto
  with e have "map_of lk l = Some (fe\<lparr>cell_ids := all_cells obs ld l\<rparr>)" by simp
  with first_entry_Some [OF fe] show ?thesis by blast
qed

lemma example_lookup_run:
  "generate_parent_cell_lookup example_accession example_obs example_labelsets =
     Inr [(''T'', \<lparr>cell_ids = {''c1'', ''c2'', ''c3''}, accession = ''class:c1c2'', rank = ''1'',
                   cell_ontology_term_id = ''CL:1'', cell_ontology_term = ''t cell'',
                   parent = None, p_accession = None, parent_rank = None\<rparr>),
          (''B'', \<lparr>cell_ids = {''c3''}, accession = ''class:c3'', rank = ''1'',
                   cell_ontology_term_id = ''CL:2'', cell_ontology_term = ''b cell'',
                   parent = None, p_accession = None, parent_rank = None\<rparr>),
          (''x'', \<lparr>cell_ids = {''c1''}, accession = ''cluster:c1'', rank = ''0'',
                   cell_ontology_term_id = ''CL:1'', cell_ontology_term = ''t cell'',
                   parent = None, p_accession = None, parent_rank = None\<rparr>),
          (''y'', \<lparr>cell_ids = {''c2''}, accession = ''cluster:c2'', rank = ''0'',
                   cell_ontology_term_id = ''CL:1'', cell_ontology_term = ''t cell'',
                   parent = None, p_accession = None, parent_rank = None\<rparr>)]"
  by code_simp

lemma example_find:
  "find (\<lambda>(k, v). ''T'' \<in> set (members v)) example_labelsets
     = Some (''class'', \<lparr>members = [''T'', ''B''], labelset_rank = ''1''\<rparr>)"
  by code_simp

text \<open>
  In the example table the label \<open>T\<close> occurs under \<open>class\<close> (rank 1) and then under
  \<open>cluster\<close> (rank 0). The merged entry has the three cells and the rank 1 of
  \<open>class\<close>, not the rank 0 of the labelset processed last.
\<close>

theorem merged_rank_is_first_labelset_rank:
  "calculate_labelset example_obs [''class'', ''cluster''] = Inr example_labelsets
   \<and> occurrences example_labelsets ''T''
       = [(''class'', \<lparr>members = [''T'', ''B''], labelset_rank = ''1''\<rparr>),
          (''cluster'', \<lparr>members = [''x'', ''y'', ''T''], labelset_rank = ''0''\<rparr>)]
   \<and> generate_parent_cell_lookup example_accession example_obs example_labelsets =
     Inr [(''T'', \<lparr>cell_ids = {''c1'', ''c2'', ''c3''}, accession = ''class:c1c2'', rank = ''1'',
                   cell_ontology_term_id = ''CL:1'', cell_ontology_term = ''t cell'',
                   parent = None, p_accession = None, parent_rank = None\<rparr>),
          (''B'', \<lparr>cell_ids = {''c3''}, accession = ''class:c3'', rank = ''1'',
                   cell_ontology_term_id = ''CL:2'', cell_ontology_term = ''b cell'',
                   parent = None, p_accession = None, parent_rank = None\<rparr>),
          (''x'', \<lparr>cell_ids = {''c1''}, accession = ''cluster:c1'', rank = ''0'',
                   cell_ontology_term_id = ''CL:1'', cell_ontology_term = ''t cell'',
                   parent = None, p_accession = None, parent_rank = None\<rparr>),
          (''y'', \<lparr>cell_ids = {''c2''}, accession = ''cluster:c2'', rank = ''0'',
                   cell_ontology_term_id = ''CL:1'', cell_ontology_term = ''t cell'',
                   parent = None, p_accession = None, parent_rank = None\<rparr>)]"
  by code_simp

text \<open>The example table: the cells of \<open>T\<close> under both labelsets.\<close>

theorem merged_entry_union_and_first_rank_witness:
  "generate_parent_cell_lookup example_accession example_obs example_labelsets =
     Inr [(''T'', \<lparr>cell_ids = {''c1'', ''c2'', ''c3''}, accession = ''class:c1c2'', rank = ''1'',
                   cell_ontology_term_id = ''CL:1'', cell_ontology_term = ''t cell'',
                   parent = None, p_accession = None, parent_rank = None\<rparr>),
          (''B'', \<lparr>cell_ids = {''c3''}, accession = ''class:c3'', rank = ''1'',
                   cell_ontology_term_id = ''CL:2'', cell_ontology_term = ''b cell'',
                   parent = None, p_accession = None, parent_rank = None\<rparr>),
          (''x'', \<lparr>cell_ids = {''c1''}, accession = ''cluster:c1'', rank = ''0'',
                   cell_ontology_term_id = ''CL:1'', cell_ontology_term = ''t cell'',
                   parent = None, p_accession = None, parent_rank = None\<rparr>),
          (''y'', \<lparr>cell_ids = {''c2''}, accession = ''cluster:c2'', rank = ''0'',
                   cell_ontology_term_id = ''CL:1'', cell_ontology_term = ''t cell'',
                   parent = None, p_accession = None, parent_rank = None\<rparr>)]
   \<and> find (\<lambda>(k, v). ''T'' \<in> set (members v)) example_labelsets
       = Some (''class'', \<lparr>members = [''T'', ''B''], labelset_rank = ''1''\<rparr>)
   \<and> {c. \<exists>k v cs. (k, v) \<in> set example_labelsets \<and> ''T'' \<in> set (members v)
             \<and> get_cell_ids example_obs k ''T'' = Inr cs \<and> c \<in> set cs}
       = {''c1'', ''c2'', ''c3''}"
proof -
  note run = example_lookup_run
  note f = example_find
  from merged_entry_union_and_first_rank [OF run f]
  have "{c. \<exists>k v cs. (k, v) \<in> set example_labelsets \<and> ''T'' \<in> set (members v)
             \<and> get_cell_ids example_obs k ''T'' = Inr cs \<and> c \<in> set cs}
       = {''c1'', ''c2'', ''c3''}"
    by simp
  with run f show ?thesis by blast
qed

text \<open>
  The example table: the accession of \<open>T\<close> is made from \<open>c1\<close> and \<open>c2\<close>, its
  cells under \<open>class\<close>, while its cell-id set has grown to three cells.
\<close>

theorem merge_keeps_first_fields_witness:
  "generate_parent_cell_lookup example_accession example_obs example_labelsets =
     Inr [(''T'', \<lparr>cell_ids = {''c1'', ''c2'', ''c3''}, accession = ''class:c1c2'', rank = ''1'',
                   cell_ontology_term_id = ''CL:1'', cell_ontology_term = ''t cell'',
                   parent = None, p_accession = None, parent_rank = None\<rparr>),
          (''B'', \<lparr>cell_ids = {''c3''}, accession = ''class:c3'', rank = ''1'',
                   cell_ontology_term_id = ''CL:2'', cell_ontology_term = ''b cell'',
                   parent = None, p_accession = None, parent_rank = None\<rparr>),
          (''x'', \<lparr>cell_ids = {''c1''}, accession = ''cluster:c1'', rank = ''0'',
                   cell_ontology_term_id = ''CL:1'', cell_ontology_term = ''t cell'',
                   parent = None, p_accession = None, parent_rank = None\<rparr>),
          (''y'', \<lparr>cell_ids = {''c2''}, accession = ''cluster:c2'', rank = ''0'',
                   cell_ontology_term_id = ''CL:1'', cell_ontology_term = ''t cell'',
                   parent = None, p_accession = None, parent_rank = None\<rparr>)]
   \<and> find (\<lambda>(k, v). ''T'' \<in> set (members v)) example_labelsets
       = Some (''class'', \<lparr>members = [''T'', ''B''], labelset_rank = ''1''\<rparr>)
   \<and> get_cell_ids example_obs ''class'' ''T'' = Inr [''c1'', ''c2'']
   \<and> example_accession [''c1'', ''c2''] ''class'' = ''class:c1c2''
   \<and> all_cells example_obs example_labelsets ''T'' = {''c1'', ''c2'', ''c3''}"
proof -
  note run = example_lookup_run
  note f = example_find
  have g: "get_cell_ids example_obs ''class'' ''T'' = Inr [''c1'', ''c2'']" by code_simp
  have a: "example_accession [''c1'', ''c2''] ''class'' = ''class:c1c2''" by code_simp
  from merge_keeps_first_fields [OF run f] g
  have "all_cells example_obs example_labelsets ''T'' = {''c1'', ''c2'', ''c3''}"
    by (auto simp: new_entry_def)
  with run f g a show ?thesis by blast
qed

section \<open>Properties of the enrichment of annotation records\<close>

lemma remove_redundant_fields:
  assumes "key = ''cell_ontology_term_id'' \<or> key = ''cell_ontology_term''"
  shows "map_of (remove_redundant lk par a) key = map_of a key
       \<or> map_of (remove_redundant lk par a) key = None"
  using assms by (auto simp: remove_redundant_def Let_def delete_conv')

lemma remove_redundant_changed:
  assumes "map_of (remove_redundant lk par a) key \<noteq> map_of a key"
  shows "map_option (\<lambda>e. Str (cell_ontology_term_id e)) (map_of lk par)
           = map_of a ''cell_ontology_term_id''
       \<and> map_option (\<lambda>e. Str (cell_ontology_term e)) (map_of lk par)
           = map_of a ''cell_ontology_term''"
  using assms by (auto simp: remove_redundant_def Let_def split: if_splits)

lemma get_parent_info_Some:
  "get_parent_info lk a = Inr (Some e) \<Longrightarrow>
   \<exists>l. map_of a ''cell_label'' = Some (Str l) \<and> map_of lk l = Some e"
  by (auto simp: get_parent_info_def split: option.splits py_value.splits)

lemma enrich_annotation_fields:
  assumes "enrich_annotation lk a = Inr a'"
    and "key = ''cell_ontology_term_id'' \<or> key = ''cell_ontology_term''"
  shows "map_of a' key = map_of a key \<or> map_of a' key = None"
proof -
  have k: "map_of (AList.update ''parent_cell_set_accession'' x
             (AList.update ''parent_cell_set_name'' y a)) key = map_of a key" for x y
    using assms(2) by (auto simp: update_conv')
  from assms(1) consider "a' = a"
    | par p_acc where "a' = remove_redundant lk par
         (AList.update ''parent_cell_set_accession'' (Str p_acc)
            (AList.update ''parent_cell_set_name'' (Str par) a))"
    by (auto simp: enrich_annotation_def split: sum.splits option.splits if_splits)
  then show ?thesis
  proof cases
    case 1
    then show ?thesis by simp
  next
    case 2
    with remove_redundant_fields [OF assms(2), of lk par] k show ?thesis by metis
  qed
qed

lemma enrich_annotation_changed:
  assumes "enrich_annotation lk a = Inr a'"
    and "key = ''cell_ontology_term_id'' \<or> key = ''cell_ontology_term''"
    and "map_of a' key \<noteq> map_of a key"
  shows "redundant_with_parent lk a"
proof -
  from assms(1) obtain info where info: "get_parent_info lk a = Inr info"
    by (auto simp: enrich_annotation_def split: sum.splits)
  from assms(1,3) info obtain e par p_acc where e: "info = Some e"
    and p: "parent e = Some par" "p_accession e = Some p_acc" "par \<noteq> []" "p_acc \<noteq> []"
    and a': "a' = remove_redundant lk par
         (AList.update ''parent_cell_set_accession'' (Str p_acc)
            (AList.update ''parent_cell_set_name'' (Str par) a))"
    by (auto simp: enrich_annotation_def Option.bind_eq_Some_conv
          split: sum.splits option.splits if_splits)
  let ?b = "AList.update ''parent_cell_set_accession'' (Str p_acc)
            (AList.update ''parent_cell_set_name'' (Str par) a)"
  have k: "map_of ?b k' = map_of a k'"
    if "k' = ''cell_ontology_term_id'' \<or> k' = ''cell_ontology_term''" for k'
    using that by (auto simp: update_conv')
  from assms(2,3) a' k have "map_of (remove_redundant lk par ?b) key \<noteq> map_of ?b key"
    by auto
  from remove_redundant_changed [OF this] k
  have "map_option (\<lambda>e. Str (cell_ontology_term_id e)) (map_of lk par)
           = map_of a ''cell_ontology_term_id''
       \<and> map_option (\<lambda>e. Str (cell_ontology_term e)) (map_of lk par)
           = map_of a ''cell_ontology_term''"
    by simp
  moreover from get_parent_info_Some info e obtain l
    where "map_of a ''cell_label'' = Some (Str l)" "map_of lk l = Some e" by blast
  ultimately show ?thesis using p unfolding redundant_with_parent_def by blast
qed

lemma enrich_from_result:
  assumes "enrich_from lk js anns = Inr res" and "distinct js" and "\<forall>j \<in> set js. j < length anns"
  shows "length res = length anns
       \<and> (\<forall>i < length anns.
            if i \<in> set js then enrich_annotation lk (anns ! i) = Inr (res ! i)
            else res ! i = anns ! i)"
  using assms
proof (induction js arbitrary: anns)
  case Nil
  then show ?case by simp
next
  case (Cons j js)
  from Cons.prems(1) obtain a where a: "enrich_annotation lk (anns ! j) = Inr a"
    and r: "enrich_from lk js (anns[j := a]) = Inr res"
    by (auto split: sum.splits)
  from Cons.prems(2,3) have d: "distinct js" and b: "\<forall>i \<in> set js. i < length (anns[j := a])"
    and j: "j \<notin> set js" "j < length anns"
    by simp_all
  from Cons.IH [OF r d b] have len: "length res = length anns"
    and rest: "\<forall>i < length anns.
            if i \<in> set js then enrich_annotation lk ((anns[j := a]) ! i) = Inr (res ! i)
            else res ! i = (anns[j := a]) ! i"
    by simp_all
  have "if i \<in> set (j # js) then enrich_annotation lk (anns ! i) = Inr (res ! i)
            else res ! i = anns ! i" if i: "i < length anns" for i
  proof (cases "i = j")
    case True
    with rest i j a show ?thesis by simp
  next
    case False
    with rest i show ?thesis by (auto split: if_splits)
  qed
  with len show ?case by blast
qed

lemma enrich_step_frame:
  "enrich_from lk [i] anns = Inr anns' \<Longrightarrow> j \<noteq> i \<Longrightarrow> anns' ! j = anns ! j"
  by (auto split: sum.splits)

text \<open>
  Claim C8. In \<open>add_parent_hierarchy_to_annotations\<close> every record ends as
  \<open>enrich_annotation\<close> makes it from the record itself and the lookup, and the step for
  one record leaves every other record, its parent's among them, as it was. Each of the
  fields \<open>cell_ontology_term_id\<close> and \<open>cell_ontology_term\<close> of a record is either left
  as it was or removed, and it is removed only when the record has a resolved parent
  whose two ontology fields both equal the record's; a field that is absent stays absent.
\<close>

theorem enrichment_only_removes_redundant_fields:
  assumes "add_parent_hierarchy_to_annotations annotation_list lk = Inr res"
    and "i < length annotation_list"
    and "key = ''cell_ontology_term_id'' \<or> key = ''cell_ontology_term''"
  shows "length res = length annotation_list
       \<and> enrich_annotation lk (annotation_list ! i) = Inr (res ! i)
       \<and> (\<forall>anns anns' j. enrich_from lk [i] anns = Inr anns' \<and> j \<noteq> i \<longrightarrow> anns' ! j = anns ! j)
       \<and> (map_of (res ! i) key = map_of (annotation_list ! i) key
            \<or> (map_of (res ! i) key = None \<and> redundant_with_parent lk (annotation_list ! i)))
       \<and> (map_of (annotation_list ! i) key = None \<longrightarrow> map_of (res ! i) key = None)"
proof -
  from assms(1) have "enrich_from lk [0..<length annotation_list] annotation_list = Inr res"
    by (simp add: add_parent_hierarchy_to_annotations_def)
  from enrich_from_result [OF this] assms(2)
  have len: "length res = length annotation_list"
    and e: "enrich_annotation lk (annotation_list ! i) = Inr (res ! i)"
    by auto
  from enrich_annotation_fields [OF e assms(3)] enrich_annotation_changed [OF e assms(3)]
  have f: "map_of (res ! i) key = map_of (annotation_list ! i) key
            \<or> (map_of (res ! i) key = None \<and> redundant_with_parent lk (annotation_list ! i))"
    by metis
  then have "map_of (annotation_list ! i) key = None \<longrightarrow> map_of (res ! i) key = None"
    by auto
  moreover have "\<forall>anns anns' j. enrich_from lk [i] anns = Inr anns' \<and> j \<noteq> i
      \<longrightarrow> anns' ! j = anns ! j"
    using enrich_step_frame by blast
  ultimately show ?thesis using len e f by blast
qed

text \<open>
  The child's record loses both ontology fields, which equal its parent's; the parent's
  record keeps them.
\<close>

theorem enrichment_only_removes_redundant_fields_witness:
  "add_parent_hierarchy_to_annotations example_annotations example_lookup =
     Inr [[(''labelset'', Str ''cluster''), (''cell_label'', Str ''child''),
           (''cell_fullname'', Str ''child''), (''cell_set_accession'', Str ''acc_child''),
           (''cell_ids'', StrList [''1'']),
           (''parent_cell_set_name'', Str ''par''),
           (''parent_cell_set_accession'', Str ''acc_par'')],
          [(''labelset'', Str ''class''), (''cell_label'', Str ''par''),
           (''cell_fullname'', Str ''par''), (''cell_set_accession'', Str ''acc_par''),
           (''cell_ontology_term_id'', Str ''CL:0000000''),
           (''cell_ontology_term'', Str ''cell''),
           (''cell_ids'', StrList [''1'', ''2''])]]
   \<and> (0::nat) < length example_annotations
   \<and> map_of (example_annotations ! 0) ''cell_ontology_term_id'' = Some (Str ''CL:0000000'')
   \<and> redundant_with_parent example_lookup (example_annotations ! 0)"
proof -
  let ?res = "[[(''labelset'', Str ''cluster''), (''cell_label'', Str ''child''),
           (''cell_fullname'', Str ''child''), (''cell_set_accession'', Str ''acc_child''),
           (''cell_ids'', StrList [''1'']),
           (''parent_cell_set_name'', Str ''par''),
           (''parent_cell_set_accession'', Str ''acc_par'')],
          [(''labelset'', Str ''class''), (''cell_label'', Str ''par''),
           (''cell_fullname'', Str ''par''), (''cell_set_accession'', Str ''acc_par''),
           (''cell_ontology_term_id'', Str ''CL:0000000''),
           (''cell_ontology_term'', Str ''cell''),
           (''cell_ids'', StrList [''1'', ''2''])]]"
  have run: "add_parent_hierarchy_to_annotations example_annotations example_lookup = Inr ?res"
    by code_simp
  have i: "(0::nat) < length example_annotations" by (simp add: example_annotations_def)
  have k: "''cell_ontology_term_id'' = ''cell_ontology_term_id''
             \<or> ''cell_ontology_term_id'' = ''cell_ontology_term''" by simp
  have before: "map_of (example_annotations ! 0) ''cell_ontology_term_id''
      = Some (Str ''CL:0000000'')"
    by (simp add: example_annotations_def)
  have after: "map_of (?res ! 0) ''cell_ontology_term_id'' = None" by simp
  from enrichment_only_removes_redundant_fields [OF run i k] before after
  have "redundant_with_parent example_lookup (example_annotations ! 0)" by auto
  with run i before show ?thesis by blast
qed

end
